theory Spec2Isabelle
  imports Main
begin

section \<open>Errors and record types (errors.py, types.py)\<close>

text \<open>
  Every exception class the modelled code can raise is a constructor of \<open>error\<close>; a call
  that may raise returns \<open>error + 'a\<close> with \<open>Inl\<close> for the exception. The first ten
  constructors are the classes of errors.py, \<open>HTTPStatusError\<close> and
  \<open>TransportError\<close> are the exceptions of the HTTP client library, \<open>AcmeError\<close> is
  any exception of the ACME client, the others are Python built-ins. Times are seconds,
  kept as integers.
\<close>

datatype error =
    InvalidDomainName
  | InvalidRecordType
  | ResourceNotFoundError
  | UnauthorizedError
  | RateLimitExceededError int
  | ServerError "string option"
  | InvalidRequestError "string option"
  | RecordAlreadyExistsError
  | HTTPStatusError int
  | TransportError
  | JSONDecodeError
  | KeyError string
  | ValueError
  | TypeError
  | IndexError
  | RuntimeError
  | TimeoutError
  | AcmeError string

datatype RecordType = A | CNAME | NS | TXT | SOA

record Record =
  domain :: string
  rtype :: RecordType
  fqdn :: string
  name :: string
  data :: string
  ttl :: "int option"

record RecordOptions =
  options_fqdn :: string
  record_type :: RecordType
  record_value :: string
  record_ttl :: int
  append_flag :: bool
  propagation_timeout :: int
  query_interval :: int

section \<open>Root domain of a name (utils.py)\<close>

text \<open>\<open>str.split\<close> with a one-character separator: the labels between the separators,
  empty labels included, so that the result is never the empty list.\<close>

fun split_on :: "char \<Rightarrow> string \<Rightarrow> string list" where
  "split_on c [] = [[]]"
| "split_on c (x # xs) =
     (if x = c then [] # split_on c xs
      else (case split_on c xs of [] \<Rightarrow> [[x]] | l # ls \<Rightarrow> (x # l) # ls))"

text \<open>\<open>sep.join(parts)\<close>.\<close>

fun join :: "string \<Rightarrow> string list \<Rightarrow> string" where
  "join sep [] = []"
| "join sep [p] = p"
| "join sep (p # q # ps) = p @ sep @ join sep (q # ps)"

text \<open>The slice \<open>xs[-2:]\<close>: the last two elements, or all of a shorter list.\<close>

definition last_two :: "'a list \<Rightarrow> 'a list" where
  "last_two xs = drop (length xs - 2) xs"

definition get_domain :: "string \<Rightarrow> error + string" where
  "get_domain s =
     (if s = [] then Inl InvalidDomainName
      else if CHR ''.'' \<notin> set s then Inl InvalidDomainName
      else Inr (join ''.'' (last_two (split_on CHR ''.'' s))))"

section \<open>Verification names (challenge.py)\<close>

definition DNS_LABEL :: string where
  "DNS_LABEL = ''_acme-challenge''"

text \<open>\<open>domain[2:] if domain[:2] == "*." else domain\<close>\<close>

definition strip_wildcard :: "string \<Rightarrow> string" where
  "strip_wildcard d = (if take 2 d = ''*.'' then drop 2 d else d)"

definition verification_name :: "string \<Rightarrow> string" where
  "verification_name d = DNS_LABEL @ ''.'' @ strip_wildcard d"

text \<open>
  The loop \<open>for i, domain in enumerate(self.domains)\<close> of \<open>__call__\<close>: the i-th domain is
  paired with \<open>_verification_tokens[i]\<close>, which raises IndexError when there are fewer
  tokens than domains. \<open>acc\<close> is the list \<open>verification_tokens\<close> built so far.
\<close>

fun group_tokens :: "nat \<Rightarrow> string list \<Rightarrow> string list \<Rightarrow> (string \<times> string) list
    \<Rightarrow> error + (string \<times> string) list" where
  "group_tokens i [] toks acc = Inr acc"
| "group_tokens i (d # ds) toks acc =
     (if i < length toks
      then group_tokens (Suc i) ds toks (acc @ [(verification_name d, toks ! i)])
      else Inl IndexError)"

section \<open>The DigitalOcean provider (adapters/providers/digitalocean/provider.py)\<close>

text \<open>
  The HTTP client is outside the repository. A response is its status code, what
  \<open>response.headers.get("ratelimit-reset")\<close> gives (nothing, a string, or a number when
  a test double stores one) and what \<open>response.json()\<close> gives (\<open>None\<close> when the body is
  not JSON and \<open>response.json()\<close> raises). A JSON body is an object, read through the
  keys the code reads: \<open>message\<close>, \<open>domain_records\<close>, \<open>domain_record\<close> of a body and
  \<open>type\<close>, \<open>name\<close>, \<open>data\<close>, \<open>ttl\<close>, \<open>id\<close> of a record item, each absent or present
  with a value of the type the dataclass field is annotated with.
\<close>

datatype header_value = HStr string | HNum int

record item =
  item_type :: "string option"
  item_name :: "string option"
  item_data :: "string option"
  item_ttl :: "int option"
  item_id :: "string option"

record body =
  message :: "string option"
  domain_records :: "item list option"
  domain_record :: "item option"

record response =
  status_code :: int
  ratelimit_reset :: "header_value option"
  json :: "body option"

record DORecord = Record +
  resource_id :: string

text \<open>The requests of the client: \<open>client.get(url, params)\<close>, \<open>client.post(url, json)\<close> with
  the four entries of the JSON document, \<open>client.delete(url)\<close>.\<close>

datatype request =
    Get string "(string \<times> string) list"
  | Post string RecordType string string int
  | Delete string

text \<open>The client and the system time: \<open>send\<close> performs a request on the state \<open>'c\<close> of the
  remote side and returns the response or the exception of the transport;
  \<open>time_now\<close> is \<open>time.time()\<close>.\<close>

record 'c api =
  send :: "request \<Rightarrow> 'c \<Rightarrow> (error + response) \<times> 'c"
  time_now :: "'c \<Rightarrow> int"

fun RecordType_value :: "RecordType \<Rightarrow> string" where
  "RecordType_value A = ''A''"
| "RecordType_value CNAME = ''CNAME''"
| "RecordType_value NS = ''NS''"
| "RecordType_value TXT = ''TXT''"
| "RecordType_value SOA = ''SOA''"

text \<open>\<open>RecordType(value)\<close>, which raises ValueError for any other string.\<close>

definition RecordType_of :: "string \<Rightarrow> RecordType option" where
  "RecordType_of v =
     (if v = ''A'' then Some A else if v = ''CNAME'' then Some CNAME
      else if v = ''NS'' then Some NS else if v = ''TXT'' then Some TXT
      else if v = ''SOA'' then Some SOA else None)"

text \<open>\<open>int(x / 60)\<close> rounds towards zero.\<close>

definition minutes_of :: "int \<Rightarrow> int" where
  "minutes_of secs = (if 0 \<le> secs then secs div 60 else - ((- secs) div 60))"

text \<open>\<open>response.raise_for_status()\<close> of the HTTP client library: an exception for every status
  outside 200..299.\<close>

definition httpx_raise_for_status :: "response \<Rightarrow> error + unit" where
  "httpx_raise_for_status r =
     (if 200 \<le> status_code r \<and> status_code r < 300 then Inr ()
      else Inl (HTTPStatusError (status_code r)))"

text \<open>\<open>response.json().get("message")\<close>\<close>

definition json_message :: "response \<Rightarrow> error + string option" where
  "json_message r = (case json r of None \<Rightarrow> Inl JSONDecodeError | Some b \<Rightarrow> Inr (message b))"

text \<open>\<open>raise_for_status\<close>; \<open>now\<close> is \<open>time.time()\<close>. The difference
  \<open>reset_time - time.time()\<close> is a TypeError unless the header value is a number.\<close>

definition raise_for_status :: "int \<Rightarrow> response \<Rightarrow> error + unit" where
  "raise_for_status now r =
     (if status_code r = 404 then Inl ResourceNotFoundError
      else if status_code r = 401 then Inl UnauthorizedError
      else if status_code r = 429 then
        (case ratelimit_reset r of
           Some (HNum reset_time) \<Rightarrow> Inl (RateLimitExceededError (minutes_of (reset_time - now)))
         | _ \<Rightarrow> Inl TypeError)
      else if status_code r = 500 then
        (case json_message r of Inl e \<Rightarrow> Inl e | Inr m \<Rightarrow> Inl (ServerError m))
      else if status_code r = 422 then
        (case json_message r of Inl e \<Rightarrow> Inl e | Inr m \<Rightarrow> Inl (InvalidRequestError m))
      else httpx_raise_for_status r)"

text \<open>The module function \<open>create_record(fqdn, values)\<close>; the arguments of the constructor
  are evaluated in the order written.\<close>

definition create_record :: "string \<Rightarrow> item \<Rightarrow> error + DORecord" where
  "create_record fq values =
     (case item_type values of None \<Rightarrow> Inl (KeyError ''type'') | Some ty \<Rightarrow>
      (case RecordType_of ty of None \<Rightarrow> Inl ValueError | Some t \<Rightarrow>
       (case get_domain fq of Inl e \<Rightarrow> Inl e | Inr root \<Rightarrow>
        (case item_name values of None \<Rightarrow> Inl (KeyError ''name'') | Some n \<Rightarrow>
         (case item_data values of None \<Rightarrow> Inl (KeyError ''data'') | Some d \<Rightarrow>
          (case item_id values of None \<Rightarrow> Inl (KeyError ''id'') | Some i \<Rightarrow>
             Inr \<lparr>domain = root, rtype = t, fqdn = fq, name = n, data = d,
                  ttl = item_ttl values, resource_id = i\<rparr>))))))"

text \<open>\<open>[create_record(domain, item) for item in fqdn_records]\<close>: the first exception ends
  the comprehension.\<close>

fun create_records :: "string \<Rightarrow> item list \<Rightarrow> error + DORecord list" where
  "create_records root [] = Inr []"
| "create_records root (it # its) =
     (case create_record root it of Inl e \<Rightarrow> Inl e | Inr r \<Rightarrow>
      (case create_records root its of Inl e \<Rightarrow> Inl e | Inr rs \<Rightarrow> Inr (r # rs)))"

definition check_record_type :: "RecordType \<Rightarrow> error + RecordType" where
  "check_record_type t = (if t = SOA then Inl InvalidRecordType else Inr t)"

definition get_records :: "'c api \<Rightarrow> string \<Rightarrow> RecordType \<Rightarrow> 'c
    \<Rightarrow> (error + DORecord list) \<times> 'c" where
  "get_records C fq t c =
     (case check_record_type t of Inl e \<Rightarrow> (Inl e, c) | Inr ty \<Rightarrow>
      (case get_domain fq of Inl e \<Rightarrow> (Inl e, c) | Inr root \<Rightarrow>
       (case send C (Get (''/'' @ root @ ''/records/'')
                 [(''name'', fq), (''type'', RecordType_value ty)]) c of
          (Inl e, c1) \<Rightarrow> (Inl e, c1)
        | (Inr r, c1) \<Rightarrow>
           (case raise_for_status (time_now C c1) r of Inl e \<Rightarrow> (Inl e, c1) | Inr u \<Rightarrow>
            (case json r of None \<Rightarrow> (Inl JSONDecodeError, c1) | Some b \<Rightarrow>
               (create_records root (case domain_records b of None \<Rightarrow> [] | Some l \<Rightarrow> l),
                c1))))))"

text \<open>
  The loop of \<open>_check_record\<close>. Its body leaves the function in the first iteration:
  it returns \<open>existing_records[0]\<close> when the record at hand has the value and the ttl, and
  raises otherwise. \<open>all_records\<close> is the whole list \<open>existing_records\<close>.
\<close>

fun check_record_loop :: "DORecord list \<Rightarrow> DORecord list \<Rightarrow> string \<Rightarrow> int
    \<Rightarrow> error + DORecord option" where
  "check_record_loop all_records [] v t = Inr None"
| "check_record_loop all_records (existing_record # rest) v t =
     (if data existing_record = v \<and> ttl existing_record = Some t
      then (case all_records of [] \<Rightarrow> Inl IndexError | first # others \<Rightarrow> Inr (Some first))
      else Inl RecordAlreadyExistsError)"

definition check_record :: "'c api \<Rightarrow> string \<Rightarrow> RecordType \<Rightarrow> string \<Rightarrow> int \<Rightarrow> 'c
    \<Rightarrow> (error + DORecord option) \<times> 'c" where
  "check_record C fq t v tt c =
     (case check_record_type t of Inl e \<Rightarrow> (Inl e, c) | Inr ty \<Rightarrow>
      (case get_records C fq ty c of
         (Inl e, c1) \<Rightarrow> (Inl e, c1)
       | (Inr existing_records, c1) \<Rightarrow>
           (check_record_loop existing_records existing_records v tt, c1)))"

text \<open>\<open>s.split(sep)[0]\<close>: the part of \<open>s\<close> before the first occurrence of \<open>sep\<close>, all of
  \<open>s\<close> when there is none.\<close>

fun before_sep :: "string \<Rightarrow> string \<Rightarrow> string" where
  "before_sep sep [] = []"
| "before_sep sep (x # xs) =
     (if take (length sep) (x # xs) = sep then [] else x # before_sep sep xs)"

definition record_name :: "string \<Rightarrow> string \<Rightarrow> string" where
  "record_name root fq = (if root = fq then ''@'' else before_sep (''.'' @ root) fq)"

text \<open>The part of \<open>DigitalOceanProvider.create_record\<close> after the comment
  \<open># Need to create record\<close>.\<close>

definition need_to_create_record :: "'c api \<Rightarrow> RecordType \<Rightarrow> RecordOptions \<Rightarrow> 'c
    \<Rightarrow> (error + DORecord) \<times> 'c" where
  "need_to_create_record C ty options c =
     (case get_domain (options_fqdn options) of Inl e \<Rightarrow> (Inl e, c) | Inr root \<Rightarrow>
      (case send C (Post (''/'' @ root @ ''/records'') ty
                 (record_name root (options_fqdn options))
                 (record_value options) (record_ttl options)) c of
         (Inl e, c1) \<Rightarrow> (Inl e, c1)
       | (Inr r, c1) \<Rightarrow>
          (case raise_for_status (time_now C c1) r of Inl e \<Rightarrow> (Inl e, c1) | Inr u \<Rightarrow>
           (case json r of None \<Rightarrow> (Inl JSONDecodeError, c1) | Some b \<Rightarrow>
              (create_record (options_fqdn options)
                 (case domain_record b of
                    None \<Rightarrow> \<lparr>item_type = None, item_name = None, item_data = None,
                              item_ttl = None, item_id = None\<rparr>
                  | Some it \<Rightarrow> it),
               c1)))))"

definition DigitalOceanProvider_create_record :: "'c api \<Rightarrow> RecordOptions \<Rightarrow> 'c
    \<Rightarrow> (error + DORecord) \<times> 'c" where
  "DigitalOceanProvider_create_record C options c =
     (case check_record_type (record_type options) of Inl e \<Rightarrow> (Inl e, c) | Inr ty \<Rightarrow>
      (case check_record C (options_fqdn options) (record_type options)
              (record_value options) (record_ttl options) c of
         (Inl e, c1) \<Rightarrow>
           if e = RecordAlreadyExistsError
           then (if \<not> append_flag options then (Inl e, c1)
                 else need_to_create_record C ty options c1)
           else (Inl e, c1)
       | (Inr (Some existing_record), c1) \<Rightarrow> (Inr existing_record, c1)
       | (Inr None, c1) \<Rightarrow> need_to_create_record C ty options c1))"

text \<open>\<open>DigitalOceanProvider.delete_record\<close>; the argument is a plain \<open>Record\<close> (\<open>Inl\<close>) or a
  \<open>DORecord\<close> (\<open>Inr\<close>).\<close>

definition DigitalOceanProvider_delete_record :: "'c api \<Rightarrow> Record + DORecord \<Rightarrow> 'c
    \<Rightarrow> (error + unit) \<times> 'c" where
  "DigitalOceanProvider_delete_record C record c =
     (case record of Inl plain \<Rightarrow> (Inl TypeError, c) | Inr r \<Rightarrow>
      (case send C (Delete (''/'' @ domain r @ ''/records/'' @ resource_id r)) c of
         (Inl e, c1) \<Rightarrow> (Inl e, c1)
       | (Inr resp, c1) \<Rightarrow> (raise_for_status (time_now C c1) resp, c1)))"

text \<open>A client that keeps the list of the requests it was sent, oldest first, beside
  the state of the client it wraps.\<close>

definition logged :: "'c api \<Rightarrow> ('c \<times> request list) api" where
  "logged C =
     \<lparr>send = (\<lambda>req (c, reqs). case send C req c of (r, c1) \<Rightarrow> (r, (c1, reqs @ [req]))),
      time_now = (\<lambda>(c, reqs). time_now C c)\<rparr>"

text \<open>A zone that answers every listing with the given record items and accepts every
  creation and deletion; \<open>txt_item i d\<close> is a TXT item with id \<open>i\<close>, data \<open>d\<close> and ttl 30.\<close>

definition txt_item :: "string \<Rightarrow> string \<Rightarrow> item" where
  "txt_item i d =
     \<lparr>item_type = Some ''TXT'', item_name = Some ''_acme-challenge'', item_data = Some d,
      item_ttl = Some 30, item_id = Some i\<rparr>"

definition ok_response :: "int \<Rightarrow> body \<Rightarrow> response" where
  "ok_response code b = \<lparr>status_code = code, ratelimit_reset = None, json = Some b\<rparr>"

definition zone_with :: "item list \<Rightarrow> unit api" where
  "zone_with items =
     \<lparr>send = (\<lambda>req c. case req of
          Get url params \<Rightarrow>
            (Inr (ok_response 200 \<lparr>message = None, domain_records = Some items,
               domain_record = None\<rparr>), c)
        | Post url ty n d t \<Rightarrow>
            (Inr (ok_response 201 \<lparr>message = None, domain_records = None,
               domain_record = Some (txt_item ''3'' d)\<rparr>), c)
        | Delete url \<Rightarrow>
            (Inr \<lparr>status_code = 204, ratelimit_reset = None, json = None\<rparr>, c)),
      time_now = (\<lambda>c. 0)\<rparr>"

definition tok_options :: "bool \<Rightarrow> RecordOptions" where
  "tok_options app =
     \<lparr>options_fqdn = ''_acme-challenge.example.com'', record_type = TXT,
      record_value = ''tok'', record_ttl = 30, append_flag = app,
      propagation_timeout = 120, query_interval = 2\<rparr>"

section \<open>The DNS-01 challenge (challenge.py)\<close>

text \<open>
  What the ACME client returns is kept as far as the code reads it: a challenge with its
  type and the two results of \<open>response_and_validation\<close> for the account key, an order
  with the challenges of its authorizations.
\<close>

datatype chall_type = DNS01 | HTTP01 | TLSALPN01

record ChallengeBody =
  chall :: chall_type
  response :: string
  validation :: string

record OrderResource =
  authorizations :: "ChallengeBody list list"
  fullchain_pem :: string

text \<open>The fields of \<open>DNS01Challenge\<close> that \<open>__call__\<close> reads; \<open>csr\<close> is made in
  \<open>__post_init__\<close>.\<close>

record DNS01Challenge =
  domains :: "string list"
  csr :: string

text \<open>
  The collaborators of a run, each a function on the state \<open>'s\<close> of the world outside:
  the provider, the resolver, the injected clock \<open>self.clock\<close>, \<open>time.sleep\<close>, and the
  three calls of the ACME client. A call that can raise returns \<open>Inl\<close> of the exception.
\<close>

record 's env =
  provider_create_record :: "RecordOptions \<Rightarrow> 's \<Rightarrow> (error + Record) \<times> 's"
  provider_delete_record :: "Record \<Rightarrow> 's \<Rightarrow> (error + unit) \<times> 's"
  resolver_resolve :: "string \<Rightarrow> RecordType \<Rightarrow> 's \<Rightarrow> (error + string list) \<times> 's"
  clock :: "'s \<Rightarrow> int \<times> 's"
  time_sleep :: "int \<Rightarrow> 's \<Rightarrow> 's"
  acme_new_order :: "string \<Rightarrow> 's \<Rightarrow> (error + OrderResource) \<times> 's"
  acme_answer_challenge :: "ChallengeBody \<Rightarrow> string \<Rightarrow> 's \<Rightarrow> (error + unit) \<times> 's"
  acme_poll_and_finalize :: "OrderResource \<Rightarrow> int option \<Rightarrow> 's
      \<Rightarrow> (error + OrderResource) \<times> 's"

text \<open>The options \<open>temporary_txt_records\<close> builds for one name and value.\<close>

definition txt_options :: "string \<Rightarrow> string \<Rightarrow> RecordOptions" where
  "txt_options fq v =
     \<lparr>options_fqdn = fq, record_type = TXT, record_value = v, record_ttl = 30,
      append_flag = True, propagation_timeout = 120, query_interval = 2\<rparr>"

text \<open>
  The loop \<open>for fqdn, value in records\<close>. \<open>stack\<close> holds the records of the callbacks
  \<open>stack.callback(self.provider.delete_record, record)\<close>, the last one registered first;
  \<open>dns_records\<close> is the list of that name. The result is the exception that ended the
  loop, if any, with both lists.
\<close>

fun create_loop :: "'s env \<Rightarrow> (string \<times> string) list \<Rightarrow> Record list \<Rightarrow> Record list \<Rightarrow> 's
    \<Rightarrow> (error option \<times> Record list \<times> Record list) \<times> 's" where
  "create_loop E [] stack dns_records s = ((None, stack, dns_records), s)"
| "create_loop E ((fq, v) # records) stack dns_records s =
     (case provider_create_record E (txt_options fq v) s of
        (Inl e, s1) \<Rightarrow> ((Some e, stack, dns_records), s1)
      | (Inr record, s1) \<Rightarrow>
          create_loop E records (record # stack) (dns_records @ [record]) s1)"

text \<open>
  The loop \<open>while self.clock() < deadline\<close> for one record. The result is \<open>Inr True\<close> when
  the loop is left by \<open>break\<close> (\<open>propagated\<close> is true), \<open>Inr False\<close> when its condition
  fails, \<open>Inl\<close> when the resolver raises, and \<open>None\<close> when the loop runs for ever.
\<close>

partial_function (option) wait_loop :: "'s env \<Rightarrow> int \<Rightarrow> Record \<Rightarrow> 's
    \<Rightarrow> ((error + bool) \<times> 's) option" where
  "wait_loop E deadline record s =
     (case clock E s of (now, s1) \<Rightarrow>
        if now < deadline then
          (case resolver_resolve E (fqdn record) (rtype record) s1 of
             (Inl e, s2) \<Rightarrow> Some (Inl e, s2)
           | (Inr values, s2) \<Rightarrow>
               if data record \<in> set values then Some (Inr True, s2)
               else wait_loop E deadline record (time_sleep E 2 s2))
        else Some (Inr False, s1))"

declare wait_loop.simps [code]

text \<open>The loop \<open>for record in dns_records\<close> around it.\<close>

fun wait_all :: "'s env \<Rightarrow> int \<Rightarrow> Record list \<Rightarrow> 's \<Rightarrow> ((error + unit) \<times> 's) option" where
  "wait_all E deadline [] s = Some (Inr (), s)"
| "wait_all E deadline (record # dns_records) s =
     (case wait_loop E deadline record s of
        None \<Rightarrow> None
      | Some (Inl e, s1) \<Rightarrow> Some (Inl e, s1)
      | Some (Inr propagated, s1) \<Rightarrow>
          if \<not> propagated then Some (Inl TimeoutError, s1)
          else wait_all E deadline dns_records s1)"

text \<open>
  \<open>stack.__exit__\<close>: every callback is called, the last one registered first. An
  exception of a callback does not stop the others; the exception of the latest callback
  that raised is kept in \<open>pending\<close> and raised when all have run.
\<close>

fun ExitStack_exit :: "'s env \<Rightarrow> Record list \<Rightarrow> error option \<Rightarrow> 's \<Rightarrow> error option \<times> 's" where
  "ExitStack_exit E [] pending s = (pending, s)"
| "ExitStack_exit E (record # callbacks) pending s =
     (case provider_delete_record E record s of
        (Inl e, s1) \<Rightarrow> ExitStack_exit E callbacks (Some e) s1
      | (Inr u, s1) \<Rightarrow> ExitStack_exit E callbacks pending s1)"

text \<open>
  \<open>temporary_txt_records\<close> up to its \<open>yield\<close>: the records are created, then awaited
  against the deadline \<open>self.clock() + 120\<close>. The result is the stack of callbacks with
  either the exception raised inside the \<open>try\<close> or the list that is yielded.
\<close>

definition temporary_txt_records_enter :: "'s env \<Rightarrow> (string \<times> string) list \<Rightarrow> 's
    \<Rightarrow> ((Record list \<times> (error + Record list)) \<times> 's) option" where
  "temporary_txt_records_enter E records s =
     (case create_loop E records [] [] s of
        ((Some e, stack, dns_records), s1) \<Rightarrow> Some ((stack, Inl e), s1)
      | ((None, stack, dns_records), s1) \<Rightarrow>
          (case clock E s1 of (now, s2) \<Rightarrow>
             (case wait_all E (now + 120) dns_records s2 of
                None \<Rightarrow> None
              | Some (Inl e, s3) \<Rightarrow> Some ((stack, Inl e), s3)
              | Some (Inr u, s3) \<Rightarrow> Some ((stack, Inr dns_records), s3))))"

text \<open>
  The \<open>finally\<close> block of \<open>temporary_txt_records\<close>. \<open>outcome\<close> is how the \<open>try\<close> part and
  the body of the \<open>with\<close> statement ended: the value returned or the exception raised.
  An exception that \<open>stack.__exit__\<close> raises leaves the block in its place.
\<close>

definition temporary_txt_records_exit :: "'s env \<Rightarrow> Record list \<Rightarrow> error + 'a \<Rightarrow> 's
    \<Rightarrow> (error + 'a) \<times> 's" where
  "temporary_txt_records_exit E stack outcome s =
     (case ExitStack_exit E stack None s of
        (Some e, s1) \<Rightarrow> (Inl e, s1)
      | (None, s1) \<Rightarrow> (outcome, s1))"

text \<open>The loop \<open>for index, challenge in enumerate(_challenges)\<close> of the \<open>with\<close> body, over
  the challenges paired with \<open>_responses[index]\<close>.\<close>

fun answer_loop :: "'s env \<Rightarrow> (ChallengeBody \<times> string) list \<Rightarrow> 's \<Rightarrow> (error + unit) \<times> 's" where
  "answer_loop E [] s = (Inr (), s)"
| "answer_loop E ((challenge, resp) # rest) s =
     (case acme_answer_challenge E challenge resp s of
        (Inl e, s1) \<Rightarrow> (Inl e, s1)
      | (Inr u, s1) \<Rightarrow> answer_loop E rest s1)"

text \<open>The body of the \<open>with\<close> statement.\<close>

definition with_body :: "'s env \<Rightarrow> ChallengeBody list \<Rightarrow> string list \<Rightarrow> OrderResource
    \<Rightarrow> int option \<Rightarrow> 's \<Rightarrow> (error + OrderResource) \<times> 's" where
  "with_body E challs responses order deadline s =
     (case answer_loop E (zip challs responses) s of
        (Inl e, s1) \<Rightarrow> (Inl e, s1)
      | (Inr u, s1) \<Rightarrow> acme_poll_and_finalize E order deadline s1)"

text \<open>\<open>DNS01Challenge.__call__\<close>\<close>

definition DNS01Challenge_call :: "'s env \<Rightarrow> DNS01Challenge \<Rightarrow> int option \<Rightarrow> 's
    \<Rightarrow> ((error + OrderResource) \<times> 's) option" where
  "DNS01Challenge_call E self deadline s =
     (case acme_new_order E (csr self) s of
        (Inl e, s1) \<Rightarrow> Some (Inl e, s1)
      | (Inr order, s1) \<Rightarrow>
          (let challs = filter (\<lambda>item. chall item = DNS01) (concat (authorizations order))
           in if challs = [] then Some (Inl RuntimeError, s1)
              else
                (case group_tokens 0 (domains self) (map validation challs) [] of
                   Inl e \<Rightarrow> Some (Inl e, s1)
                 | Inr verification_tokens \<Rightarrow>
                     (case temporary_txt_records_enter E verification_tokens s1 of
                        None \<Rightarrow> None
                      | Some ((stack, Inl e), s2) \<Rightarrow>
                          Some (temporary_txt_records_exit E stack (Inl e) s2)
                      | Some ((stack, Inr dns_records), s2) \<Rightarrow>
                          (case with_body E challs (map response challs) order deadline s2 of
                             (outcome, s3) \<Rightarrow>
                               Some (temporary_txt_records_exit E stack outcome s3))))))"

section \<open>Observing a run\<close>

text \<open>
  \<open>recording E\<close> is the environment \<open>E\<close> with a list of events beside its state: every
  \<open>create_record\<close> call that returns a record appends \<open>Created\<close> with that record, every
  \<open>delete_record\<close> call appends \<open>DeleteAttempted\<close> with its record and its result. The
  results of the calls and the state of \<open>E\<close> are those of \<open>E\<close> alone.
\<close>

datatype event = Created Record | DeleteAttempted Record "error + unit"

definition recording :: "'s env \<Rightarrow> ('s \<times> event list) env" where
  "recording E =
     \<lparr>provider_create_record = (\<lambda>options (s, evs).
        case provider_create_record E options s of
          (Inl e, s1) \<Rightarrow> (Inl e, (s1, evs))
        | (Inr record, s1) \<Rightarrow> (Inr record, (s1, evs @ [Created record]))),
      provider_delete_record = (\<lambda>record (s, evs).
        case provider_delete_record E record s of
          (res, s1) \<Rightarrow> (res, (s1, evs @ [DeleteAttempted record res]))),
      resolver_resolve = (\<lambda>fq t (s, evs).
        case resolver_resolve E fq t s of (res, s1) \<Rightarrow> (res, (s1, evs))),
      clock = (\<lambda>(s, evs). case clock E s of (now, s1) \<Rightarrow> (now, (s1, evs))),
      time_sleep = (\<lambda>d (s, evs). (time_sleep E d s, evs)),
      acme_new_order = (\<lambda>c (s, evs).
        case acme_new_order E c s of (res, s1) \<Rightarrow> (res, (s1, evs))),
      acme_answer_challenge = (\<lambda>c r (s, evs).
        case acme_answer_challenge E c r s of (res, s1) \<Rightarrow> (res, (s1, evs))),
      acme_poll_and_finalize = (\<lambda>order deadline (s, evs).
        case acme_poll_and_finalize E order deadline s of (res, s1) \<Rightarrow> (res, (s1, evs)))\<rparr>"

text \<open>The records created, the records whose deletion was attempted, and the exceptions
  of the deletions, each in the order of the events.\<close>

fun created :: "event list \<Rightarrow> Record list" where
  "created [] = []"
| "created (Created r # evs) = r # created evs"
| "created (DeleteAttempted r res # evs) = created evs"

fun deletions :: "event list \<Rightarrow> Record list" where
  "deletions [] = []"
| "deletions (Created r # evs) = deletions evs"
| "deletions (DeleteAttempted r res # evs) = r # deletions evs"

fun deletion_errors :: "event list \<Rightarrow> error list" where
  "deletion_errors [] = []"
| "deletion_errors (Created r # evs) = deletion_errors evs"
| "deletion_errors (DeleteAttempted r (Inl e) # evs) = e # deletion_errors evs"
| "deletion_errors (DeleteAttempted r (Inr u) # evs) = deletion_errors evs"

text \<open>One deletion attempt for each record of \<open>stack\<close>, in that order, with the given
  results.\<close>

definition attempts :: "Record list \<Rightarrow> (error + unit) list \<Rightarrow> event list" where
  "attempts stack results = map (\<lambda>(r, res). DeleteAttempted r res) (zip stack results)"

text \<open>
  A simulated world for concrete runs. Its state is the reading of the clock, the times
  of the resolver queries and the records whose deletion was asked for. Sleeping for
  \<open>d\<close> seconds advances the clock by \<open>d\<close>, a resolver query advances it by \<open>latency\<close> and
  answers \<open>answers t\<close> when asked at time \<open>t\<close>; every creation succeeds, the deletion
  of a record \<open>r\<close> ends with \<open>deletion r\<close>; the ACME server offers an HTTP-01 and a
  DNS-01 challenge for each validation token, accepts every answer and finalizes every
  order.
\<close>

record sim =
  sim_now :: int
  sim_queries :: "int list"
  sim_deleted :: "Record list"

definition dns_order :: "string list \<Rightarrow> OrderResource" where
  "dns_order toks =
     \<lparr>authorizations = map (\<lambda>t. [\<lparr>chall = HTTP01, response = ''h-'' @ t, validation = ''h''\<rparr>,
                                  \<lparr>chall = DNS01, response = ''r-'' @ t, validation = t\<rparr>]) toks,
      fullchain_pem = []\<rparr>"

definition sim_env :: "int \<Rightarrow> (int \<Rightarrow> string list) \<Rightarrow> (Record \<Rightarrow> error + unit) \<Rightarrow> string list
    \<Rightarrow> sim env" where
  "sim_env latency answers deletion toks =
     \<lparr>provider_create_record = (\<lambda>options s.
        (Inr \<lparr>domain = ''example.com'', rtype = record_type options,
              fqdn = options_fqdn options, name = ''_acme-challenge'',
              data = record_value options, ttl = Some (record_ttl options)\<rparr>, s)),
      provider_delete_record = (\<lambda>record s.
        (deletion record, s\<lparr>sim_deleted := sim_deleted s @ [record]\<rparr>)),
      resolver_resolve = (\<lambda>fq t s.
        (Inr (answers (sim_now s)),
         s\<lparr>sim_now := sim_now s + latency, sim_queries := sim_queries s @ [sim_now s]\<rparr>)),
      clock = (\<lambda>s. (sim_now s, s)),
      time_sleep = (\<lambda>d s. s\<lparr>sim_now := sim_now s + d\<rparr>),
      acme_new_order = (\<lambda>c s. (Inr (dns_order toks), s)),
      acme_answer_challenge = (\<lambda>c r s. (Inr (), s)),
      acme_poll_and_finalize = (\<lambda>order deadline s.
        (Inr (order\<lparr>fullchain_pem := ''cert''\<rparr>), s))\<rparr>"

text \<open>Answers of the resolver: \<open>before\<close> until the clock reads \<open>t0\<close>, \<open>after\<close> from then on;
  and results of the deletions: success for every record, or the exception \<open>e\<close> for the
  record with the value \<open>v\<close> and \<open>e'\<close> for every other one.\<close>

definition switch_at :: "int \<Rightarrow> string list \<Rightarrow> string list \<Rightarrow> int \<Rightarrow> string list" where
  "switch_at t0 before after t = (if t < t0 then before else after)"

definition deletion_succeeds :: "Record \<Rightarrow> error + unit" where
  "deletion_succeeds r = Inr ()"

definition deletion_raises :: "string \<Rightarrow> error \<Rightarrow> error \<Rightarrow> Record \<Rightarrow> error + unit" where
  "deletion_raises v e e' r = (if data r = v then Inl e else Inl e')"

text \<open>An injected clock that always reads 0, whatever time passes.\<close>

definition frozen_clock :: "sim \<Rightarrow> int \<times> sim" where
  "frozen_clock s = (0, s)"

definition sim_start :: sim where
  "sim_start = \<lparr>sim_now = 0, sim_queries = [], sim_deleted = []\<rparr>"

definition challenge_for :: "string list \<Rightarrow> DNS01Challenge" where
  "challenge_for ds = \<lparr>domains = ds, csr = ''csr''\<rparr>"

text \<open>The record the simulated provider makes for a name and a value.\<close>

definition txt_record :: "string \<Rightarrow> string \<Rightarrow> Record" where
  "txt_record fq v =
     \<lparr>domain = ''example.com'', rtype = TXT, fqdn = fq, name = ''_acme-challenge'',
      data = v, ttl = Some 30\<rparr>"

section \<open>Properties of the root domain\<close>

lemma split_on_not_Nil: "split_on c s \<noteq> []"
  by (induction s) (auto split: list.splits)

lemma split_on_no_sep: "c \<notin> set s \<Longrightarrow> split_on c s = [s]"
  by (induction s) auto

lemma split_on_append:
  "split_on c (xs @ c # ys) = split_on c xs @ split_on c ys"
proof (induction xs)
  case Nil
  show ?case by simp
next
  case (Cons x xs)
  obtain l ls where "split_on c xs = l # ls"
    using split_on_not_Nil [of c xs] by (cases "split_on c xs") auto
  with Cons show ?case by simp
qed

lemma split_on_two_labels:
  assumes "c \<notin> set a" and "c \<notin> set b"
  shows "split_on c (a @ c # b) = [a, b]"
  using assms by (simp add: split_on_append split_on_no_sep)

lemma split_on_three_parts:
  assumes "c \<notin> set a" and "c \<notin> set b"
  shows "last_two (split_on c (q @ c # a @ c # b)) = [a, b]"
proof -
  have "split_on c (q @ c # a @ c # b) = split_on c q @ [a, b]"
    using assms split_on_append [of c q "a @ c # b"] by (simp add: split_on_two_labels)
  then show ?thesis by (simp add: last_two_def)
qed

lemma dotted_shape:
  assumes "c \<in> set s"
  shows "\<exists>a b. c \<notin> set a \<and> c \<notin> set b \<and> (s = a @ c # b \<or> (\<exists>q. s = q @ c # a @ c # b))"
proof -
  from assms obtain p b where s: "s = p @ c # b" and b: "c \<notin> set b"
    by (meson split_list_last)
  show ?thesis
  proof (cases "c \<in> set p")
    case False
    with s b show ?thesis by blast
  next
    case True
    then obtain q a where "p = q @ c # a" and "c \<notin> set a"
      by (meson split_list_last)
    with s b show ?thesis by auto
  qed
qed

section \<open>Properties of the verification names\<close>

lemma group_tokens_acc:
  "i + length ds \<le> length toks \<Longrightarrow>
   group_tokens i ds toks acc =
     Inr (acc @ map (\<lambda>k. (verification_name (ds ! k), toks ! (i + k))) [0..<length ds])"
proof (induction ds arbitrary: i acc)
  case Nil
  show ?case by simp
next
  case (Cons d ds)
  have "map (\<lambda>k. (verification_name ((d # ds) ! k), toks ! (i + k))) [0..<length (d # ds)]
      = (verification_name d, toks ! i)
        # map (\<lambda>k. (verification_name (ds ! k), toks ! (Suc i + k))) [0..<length ds]"
    by (simp add: upt_conv_Cons map_Suc_upt [symmetric] del: upt_Suc)
  with Cons show ?case by simp
qed

text \<open>
  C8. The verification name of a wildcard domain \<open>*.base\<close> is
  \<open>_acme-challenge.base\<close>, that of a domain not starting with \<open>*.\<close> is
  \<open>_acme-challenge.\<close> followed by the domain unchanged; and in a run with a token for
  every domain, the name paired with the k-th token is the verification name of the k-th
  domain of the list.
\<close>

theorem wildcard_verification_name:
  "verification_name (''*.'' @ base) = ''_acme-challenge.'' @ base
   \<and> (take 2 d \<noteq> ''*.'' \<longrightarrow> verification_name d = ''_acme-challenge.'' @ d)
   \<and> (length ds \<le> length toks \<and> k < length ds \<longrightarrow>
        (\<exists>vt. group_tokens 0 ds toks [] = Inr vt \<and> length vt = length ds
           \<and> vt ! k = (verification_name (ds ! k), toks ! k)))"
proof -
  have "length ds \<le> length toks \<and> k < length ds \<longrightarrow>
        (\<exists>vt. group_tokens 0 ds toks [] = Inr vt \<and> length vt = length ds
           \<and> vt ! k = (verification_name (ds ! k), toks ! k))"
    using group_tokens_acc [of 0 ds toks "[]"] by simp
  then show ?thesis
    by (simp add: verification_name_def strip_wildcard_def DNS_LABEL_def)
qed

theorem wildcard_verification_name_witness:
  "verification_name ''example.com'' = ''_acme-challenge.example.com''
   \<and> group_tokens 0 [''a.example.com'', ''*.example.com''] [''t1'', ''t2''] []
       = Inr [(''_acme-challenge.a.example.com'', ''t1''),
              (''_acme-challenge.example.com'', ''t2'')]"
  using wildcard_verification_name [of "''example.com''" "''example.com''"
      "[''a.example.com'', ''*.example.com'']" "[''t1'', ''t2'']" 1]
  by (simp add: verification_name_def strip_wildcard_def DNS_LABEL_def)

section \<open>Properties of the provider\<close>

text \<open>The results and the states of the calls under \<open>logged C\<close> are those of the calls
  under \<open>C\<close>.\<close>

lemma logged_sel:
  "send (logged C) req (c, reqs) = (case send C req c of (r, c1) \<Rightarrow> (r, (c1, reqs @ [req])))"
  "time_now (logged C) (c, reqs) = time_now C c"
  by (simp_all add: logged_def)

lemma get_records_logged_eq:
  "\<exists>reqs'. get_records (logged C) fq t (c, reqs)
     = (fst (get_records C fq t c), (snd (get_records C fq t c), reqs'))"
  by (auto simp: get_records_def logged_sel split: sum.splits prod.splits option.splits)

lemma check_record_logged_eq:
  "\<exists>reqs'. check_record (logged C) fq t v tt (c, reqs)
     = (fst (check_record C fq t v tt c), (snd (check_record C fq t v tt c), reqs'))"
proof (cases "check_record_type t")
  case (Inl e)
  then show ?thesis by (simp add: check_record_def)
next
  case (Inr ty)
  from get_records_logged_eq [of C fq ty c reqs] obtain reqs' where
    "get_records (logged C) fq ty (c, reqs)
       = (fst (get_records C fq ty c), (snd (get_records C fq ty c), reqs'))"
    by blast
  with Inr show ?thesis
    by (cases "get_records C fq ty c") (auto simp: check_record_def split: sum.splits)
qed

lemma need_to_create_record_logged_eq:
  "\<exists>reqs'. need_to_create_record (logged C) ty opts (c, reqs)
     = (fst (need_to_create_record C ty opts c), (snd (need_to_create_record C ty opts c), reqs'))"
  by (auto simp: need_to_create_record_def logged_sel
      split: sum.splits prod.splits option.splits)

lemma logged_transparent:
  "\<exists>reqs'. DigitalOceanProvider_create_record (logged C) opts (c, reqs)
     = (fst (DigitalOceanProvider_create_record C opts c),
        (snd (DigitalOceanProvider_create_record C opts c), reqs'))"
proof (cases "check_record_type (record_type opts)")
  case (Inl e)
  then show ?thesis by (simp add: DigitalOceanProvider_create_record_def)
next
  case (Inr ty)
  obtain chk c1 where
    chk: "check_record C (options_fqdn opts) (record_type opts) (record_value opts)
            (record_ttl opts) c = (chk, c1)"
    by (metis prod.exhaust)
  with check_record_logged_eq [of C "options_fqdn opts" "record_type opts" "record_value opts"
      "record_ttl opts" c reqs]
  obtain reqs1 where
    chk': "check_record (logged C) (options_fqdn opts) (record_type opts) (record_value opts)
            (record_ttl opts) (c, reqs) = (chk, (c1, reqs1))"
    by auto
  from need_to_create_record_logged_eq [of C ty opts c1 reqs1] obtain reqs2 where
    "need_to_create_record (logged C) ty opts (c1, reqs1)
       = (fst (need_to_create_record C ty opts c1),
          (snd (need_to_create_record C ty opts c1), reqs2))"
    by blast
  with Inr chk chk' show ?thesis
    by (auto simp: DigitalOceanProvider_create_record_def split: sum.splits option.splits)
qed

text \<open>
  C4. The statuses 403 and 400 are not among the cases of \<open>raise_for_status\<close>: whatever
  the rest of the response, they reach the client library's own check and leave as its
  generic status error, not as UnauthorizedError and InvalidRequestError. A 429 whose
  rate-limit header is a string raises TypeError at the subtraction.
\<close>

theorem raise_for_status_403_400:
  "raise_for_status now (r\<lparr>status_code := 403\<rparr>) = Inl (HTTPStatusError 403)
   \<and> raise_for_status now (r\<lparr>status_code := 400\<rparr>) = Inl (HTTPStatusError 400)
   \<and> raise_for_status now (r\<lparr>status_code := 429, ratelimit_reset := Some (HStr v)\<rparr>)
       = Inl TypeError"
  by (simp add: raise_for_status_def httpx_raise_for_status_def)

text \<open>The statuses the function does map, for a response whose body is JSON.\<close>

lemma raise_for_status_mapped:
  "raise_for_status now (r\<lparr>status_code := 404\<rparr>) = Inl ResourceNotFoundError"
  "raise_for_status now (r\<lparr>status_code := 401\<rparr>) = Inl UnauthorizedError"
  "raise_for_status now (r\<lparr>status_code := 429, ratelimit_reset := Some (HNum t)\<rparr>)
     = Inl (RateLimitExceededError (minutes_of (t - now)))"
  "raise_for_status now (r\<lparr>status_code := 500, json := Some b\<rparr>) = Inl (ServerError (message b))"
  "raise_for_status now (r\<lparr>status_code := 422, json := Some b\<rparr>)
     = Inl (InvalidRequestError (message b))"
  by (simp_all add: raise_for_status_def json_message_def)

text \<open>
  C3. The zone holds two TXT records for the name, \<open>old\<close> first and \<open>tok\<close> second, both
  with ttl 30, and the options ask for value \<open>tok\<close> with ttl 30, which the second record
  matches exactly. Without \<open>append\<close> the call raises RecordAlreadyExistsError after the
  listing; with \<open>append\<close> it sends a creation request and returns the new record. In
  neither case is the matching record returned.
\<close>

theorem create_record_match_in_second_place:
  "get_records (zone_with [txt_item ''1'' ''old'', txt_item ''2'' ''tok''])
       ''_acme-challenge.example.com'' TXT ()
     = (Inr [\<lparr>domain = ''example.com'', rtype = TXT, fqdn = ''example.com'',
               name = ''_acme-challenge'', data = ''old'', ttl = Some 30,
               resource_id = ''1''\<rparr>,
             \<lparr>domain = ''example.com'', rtype = TXT, fqdn = ''example.com'',
               name = ''_acme-challenge'', data = ''tok'', ttl = Some 30,
               resource_id = ''2''\<rparr>], ())
   \<and> DigitalOceanProvider_create_record
       (logged (zone_with [txt_item ''1'' ''old'', txt_item ''2'' ''tok'']))
       (tok_options False) ((), [])
     = (Inl RecordAlreadyExistsError, (),
        [Get ''/example.com/records/''
           [(''name'', ''_acme-challenge.example.com''), (''type'', ''TXT'')]])
   \<and> DigitalOceanProvider_create_record
       (logged (zone_with [txt_item ''1'' ''old'', txt_item ''2'' ''tok'']))
       (tok_options True) ((), [])
     = (Inr \<lparr>domain = ''example.com'', rtype = TXT,
              fqdn = ''_acme-challenge.example.com'', name = ''_acme-challenge'',
              data = ''tok'', ttl = Some 30, resource_id = ''3''\<rparr>,
        (),
        [Get ''/example.com/records/''
           [(''name'', ''_acme-challenge.example.com''), (''type'', ''TXT'')],
         Post ''/example.com/records'' TXT ''_acme-challenge'' ''tok'' 30])"
  by code_simp

lemma get_records_logged:
  assumes "get_records (logged C) fq t (c, reqs) = (Inr existing, cl)"
  shows "\<exists>root c1. get_domain fq = Inr root \<and> t \<noteq> SOA
     \<and> cl = (c1, reqs @ [Get (''/'' @ root @ ''/records/'')
                            [(''name'', fq), (''type'', RecordType_value t)]])"
  using assms
  by (auto simp: get_records_def logged_def check_record_type_def
      split: sum.splits prod.splits option.splits if_splits)

lemma check_record_loop_mismatch:
  assumes "existing \<noteq> []"
    and "\<forall>r\<in>set existing. data r \<noteq> v \<or> ttl r \<noteq> Some t"
  shows "check_record_loop al existing v t = Inl RecordAlreadyExistsError"
  using assms by (cases existing) auto

text \<open>
  C7. Let the listing for the name and type of the options succeed with at least one
  record, none of which has both the value and the ttl of the options. Without
  \<open>append\<close>, \<open>create_record\<close> raises RecordAlreadyExistsError and the listing is the
  only request it has sent. With \<open>append\<close> it goes on to send one creation request,
  for the root domain of the name, with the type, value and ttl of the options; when
  that request is answered with a 2xx status and a record item, the result is the record
  made of that item.
\<close>

theorem create_record_existing_mismatch:
  assumes "get_records (logged C) (options_fqdn opts) (record_type opts) (c, reqs)
             = (Inr existing, (c1, reqs1))"
    and "existing \<noteq> []"
    and "\<forall>r\<in>set existing. data r \<noteq> record_value opts \<or> ttl r \<noteq> Some (record_ttl opts)"
  shows "(\<not> append_flag opts \<longrightarrow>
            DigitalOceanProvider_create_record (logged C) opts (c, reqs)
              = (Inl RecordAlreadyExistsError, (c1, reqs1))
            \<and> (\<exists>url params. reqs1 = reqs @ [Get url params]))
       \<and> (append_flag opts \<longrightarrow>
            (\<exists>root post. get_domain (options_fqdn opts) = Inr root
              \<and> post = Post (''/'' @ root @ ''/records'') (record_type opts)
                    (record_name root (options_fqdn opts)) (record_value opts) (record_ttl opts)
              \<and> snd (snd (DigitalOceanProvider_create_record (logged C) opts (c, reqs)))
                  = reqs1 @ [post]
              \<and> (\<forall>r c2 b it. send C post c1 = (Inr r, c2)
                    \<and> 200 \<le> status_code r \<and> status_code r < 300
                    \<and> json r = Some b \<and> domain_record b = Some it \<longrightarrow>
                    DigitalOceanProvider_create_record (logged C) opts (c, reqs)
                      = (create_record (options_fqdn opts) it, (c2, reqs1 @ [post])))))"
proof -
  from get_records_logged [OF assms(1)] obtain root c1' where
    root: "get_domain (options_fqdn opts) = Inr root" and soa: "record_type opts \<noteq> SOA" and
    cl: "(c1, reqs1) = (c1', reqs @ [Get (''/'' @ root @ ''/records/'')
           [(''name'', options_fqdn opts), (''type'', RecordType_value (record_type opts))]])"
    by blast
  define post where "post = Post (''/'' @ root @ ''/records'') (record_type opts)
      (record_name root (options_fqdn opts)) (record_value opts) (record_ttl opts)"
  have chk: "check_record (logged C) (options_fqdn opts) (record_type opts)
       (record_value opts) (record_ttl opts) (c, reqs)
     = (Inl RecordAlreadyExistsError, (c1, reqs1))"
    using assms(1) soa check_record_loop_mismatch [OF assms(2,3)]
    by (simp add: check_record_def check_record_type_def)
  have no: "DigitalOceanProvider_create_record (logged C) opts (c, reqs)
      = (Inl RecordAlreadyExistsError, (c1, reqs1))" if "\<not> append_flag opts"
    using chk soa that
    by (simp add: DigitalOceanProvider_create_record_def check_record_type_def)
  have yes: "DigitalOceanProvider_create_record (logged C) opts (c, reqs)
      = need_to_create_record (logged C) (record_type opts) opts (c1, reqs1)"
    if "append_flag opts"
    using chk soa that
    by (simp add: DigitalOceanProvider_create_record_def check_record_type_def)
  have sent: "snd (snd (need_to_create_record (logged C) (record_type opts) opts (c1, reqs1)))
      = reqs1 @ [post]"
    using root
    by (auto simp: need_to_create_record_def logged_def post_def
        split: sum.splits prod.splits option.splits)
  have made: "need_to_create_record (logged C) (record_type opts) opts (c1, reqs1)
      = (create_record (options_fqdn opts) it, (c2, reqs1 @ [post]))"
    if "send C post c1 = (Inr r, c2)" "200 \<le> status_code r" "status_code r < 300"
       "json r = Some b" "domain_record b = Some it" for r c2 b it
    using root that
    by (simp add: need_to_create_record_def logged_def post_def raise_for_status_def
        httpx_raise_for_status_def)
  from cl have "\<exists>url params. reqs1 = reqs @ [Get url params]" by simp
  with no yes sent made root post_def show ?thesis by auto
qed

theorem create_record_existing_mismatch_witness:
  "DigitalOceanProvider_create_record (logged (zone_with [txt_item ''1'' ''old'']))
       (tok_options False) ((), [])
     = (Inl RecordAlreadyExistsError, (),
        [Get ''/example.com/records/''
           [(''name'', ''_acme-challenge.example.com''), (''type'', ''TXT'')]])
   \<and> snd (snd (DigitalOceanProvider_create_record (logged (zone_with [txt_item ''1'' ''old'']))
       (tok_options True) ((), [])))
     = [Get ''/example.com/records/''
           [(''name'', ''_acme-challenge.example.com''), (''type'', ''TXT'')],
        Post ''/example.com/records'' TXT ''_acme-challenge'' ''tok'' 30]"
proof -
  let ?C = "zone_with [txt_item ''1'' ''old'']"
  let ?existing = "[\<lparr>domain = ''example.com'', rtype = TXT, fqdn = ''example.com'',
      name = ''_acme-challenge'', data = ''old'', ttl = Some 30, resource_id = ''1''\<rparr>]"
  let ?reqs1 = "[Get ''/example.com/records/''
      [(''name'', ''_acme-challenge.example.com''), (''type'', ''TXT'')]]"
  have listing: "get_records (logged ?C) (options_fqdn (tok_options app))
      (record_type (tok_options app)) ((), []) = (Inr ?existing, ((), ?reqs1))" for app
    unfolding tok_options_def by code_simp
  have nonempty: "?existing \<noteq> []" by simp
  have differ: "\<forall>r\<in>set ?existing. data r \<noteq> record_value (tok_options app)
      \<or> ttl r \<noteq> Some (record_ttl (tok_options app))" for app
    by (simp add: tok_options_def)
  have root: "get_domain ''_acme-challenge.example.com'' = Inr ''example.com''"
    by code_simp
  have nm: "record_name ''example.com'' ''_acme-challenge.example.com'' = ''_acme-challenge''"
    by code_simp
  show ?thesis
    using create_record_existing_mismatch [OF listing [of False] nonempty differ [of False]]
      create_record_existing_mismatch [OF listing [of True] nonempty differ [of True]]
    by (auto simp: tok_options_def root nm)
qed

subsection \<open>The zone of the requests\<close>

lemma need_to_create_record_request:
  assumes "get_domain (options_fqdn opts) = Inr root"
  shows "snd (snd (need_to_create_record (logged C) ty opts (c, reqs)))
     = reqs @ [Post (''/'' @ root @ ''/records'') ty (record_name root (options_fqdn opts))
                 (record_value opts) (record_ttl opts)]"
  using assms
  by (auto simp: need_to_create_record_def logged_sel split: sum.splits prod.splits option.splits)

lemma create_record_domain:
  assumes "create_record fq it = Inr r"
  shows "get_domain fq = Inr (domain r)"
  using assms by (auto simp: create_record_def split: option.splits sum.splits)

lemma delete_record_request:
  "snd (snd (DigitalOceanProvider_delete_record (logged C) (Inr r) (c, reqs)))
     = reqs @ [Delete (''/'' @ domain r @ ''/records/'' @ resource_id r)]"
  by (auto simp: DigitalOceanProvider_delete_record_def logged_sel split: sum.splits prod.splits)

text \<open>
  C10. \<open>get_domain\<close> raises InvalidDomainName for the empty name and for a name without a
  dot. For every other name it returns the last two dot-separated labels: a name
  \<open>a.b\<close> with dot-free \<open>a\<close> and \<open>b\<close> is returned whole, a longer name \<open>q.a.b\<close> gives
  \<open>a.b\<close>, every name with a dot has one of these two shapes, and so
  \<open>example.co.uk\<close> gives \<open>co.uk\<close>. The result is the zone in the path of the requests:
  of the listing for a name, of the creation for the name of the options, and, through
  the \<open>domain\<close> of a record made by \<open>create_record\<close>, of its deletion.
\<close>

theorem get_domain_last_two_labels:
  "(s = [] \<or> CHR ''.'' \<notin> set s \<longrightarrow> get_domain s = Inl InvalidDomainName)
   \<and> (CHR ''.'' \<notin> set a \<and> CHR ''.'' \<notin> set b \<longrightarrow>
        get_domain (a @ ''.'' @ b) = Inr (a @ ''.'' @ b)
        \<and> get_domain (q @ ''.'' @ a @ ''.'' @ b) = Inr (a @ ''.'' @ b))
   \<and> (CHR ''.'' \<in> set s \<longrightarrow>
        (\<exists>a b. CHR ''.'' \<notin> set a \<and> CHR ''.'' \<notin> set b
           \<and> (s = a @ ''.'' @ b \<or> (\<exists>q. s = q @ ''.'' @ a @ ''.'' @ b))
           \<and> get_domain s = Inr (a @ ''.'' @ b)))
   \<and> get_domain ''example.co.uk'' = Inr ''co.uk''
   \<and> (get_records (logged C) fq t (c, reqs) = (Inr existing, st) \<longrightarrow>
        (\<exists>root. get_domain fq = Inr root
           \<and> snd st = reqs @ [Get (''/'' @ root @ ''/records/'')
                                [(''name'', fq), (''type'', RecordType_value t)]]))
   \<and> (get_domain (options_fqdn opts) = Inr root \<longrightarrow>
        snd (snd (need_to_create_record (logged C) ty opts (c, reqs)))
          = reqs @ [Post (''/'' @ root @ ''/records'') ty (record_name root (options_fqdn opts))
                      (record_value opts) (record_ttl opts)])
   \<and> (create_record fq' it = Inr r \<longrightarrow>
        get_domain fq' = Inr (domain r)
        \<and> snd (snd (DigitalOceanProvider_delete_record (logged C) (Inr r) (c, reqs)))
            = reqs @ [Delete (''/'' @ domain r @ ''/records/'' @ resource_id r)])"
proof -
  have raise: "s = [] \<or> CHR ''.'' \<notin> set s \<longrightarrow> get_domain s = Inl InvalidDomainName"
    by (auto simp: get_domain_def)
  have two: "get_domain (a @ ''.'' @ b) = Inr (a @ ''.'' @ b)"
    if "CHR ''.'' \<notin> set a" "CHR ''.'' \<notin> set b" for a b
    using that by (simp add: get_domain_def split_on_two_labels last_two_def)
  have three: "get_domain (q @ ''.'' @ a @ ''.'' @ b) = Inr (a @ ''.'' @ b)"
    if "CHR ''.'' \<notin> set a" "CHR ''.'' \<notin> set b" for q a b
    using that split_on_three_parts [of "CHR ''.''" a b q] by (simp add: get_domain_def)
  have shape: "\<exists>a b. CHR ''.'' \<notin> set a \<and> CHR ''.'' \<notin> set b
       \<and> (s = a @ ''.'' @ b \<or> (\<exists>q. s = q @ ''.'' @ a @ ''.'' @ b))
       \<and> get_domain s = Inr (a @ ''.'' @ b)" if "CHR ''.'' \<in> set s"
  proof -
    from dotted_shape [OF that] obtain a b where
      ab: "CHR ''.'' \<notin> set a" "CHR ''.'' \<notin> set b" and
      s: "s = a @ CHR ''.'' # b \<or> (\<exists>q. s = q @ CHR ''.'' # a @ CHR ''.'' # b)"
      by blast
    from s have "get_domain s = Inr (a @ ''.'' @ b)"
      using two [OF ab] three [OF ab] by auto
    with ab s show ?thesis by auto
  qed
  have uk: "get_domain ''example.co.uk'' = Inr ''co.uk''"
    using three [of "''co''" "''uk''" "''example''"] by simp
  have listing: "\<exists>root. get_domain fq = Inr root
      \<and> snd st = reqs @ [Get (''/'' @ root @ ''/records/'')
                           [(''name'', fq), (''type'', RecordType_value t)]]"
    if "get_records (logged C) fq t (c, reqs) = (Inr existing, st)"
    using get_records_logged [OF that] by auto
  have creation: "snd (snd (need_to_create_record (logged C) ty opts (c, reqs)))
      = reqs @ [Post (''/'' @ root @ ''/records'') ty (record_name root (options_fqdn opts))
                  (record_value opts) (record_ttl opts)]"
    if "get_domain (options_fqdn opts) = Inr root"
    using that by (rule need_to_create_record_request)
  have deletion: "get_domain fq' = Inr (domain r)
      \<and> snd (snd (DigitalOceanProvider_delete_record (logged C) (Inr r) (c, reqs)))
          = reqs @ [Delete (''/'' @ domain r @ ''/records/'' @ resource_id r)]"
    if "create_record fq' it = Inr r"
    using create_record_domain [OF that] delete_record_request by simp
  from raise two three shape uk listing creation deletion show ?thesis by blast
qed

theorem get_domain_last_two_labels_witness:
  "get_domain ''co'' = Inl InvalidDomainName
   \<and> get_domain ''www.example.com'' = Inr ''example.com''
   \<and> get_domain ''example.com'' = Inr ''example.com''
   \<and> snd (snd (get_records (logged (zone_with [])) ''www.example.co.uk'' TXT ((), [])))
       = [Get ''/co.uk/records/'' [(''name'', ''www.example.co.uk''), (''type'', ''TXT'')]]
   \<and> snd (snd (need_to_create_record (logged (zone_with [])) TXT
         (tok_options True\<lparr>options_fqdn := ''www.example.co.uk''\<rparr>) ((), [])))
       = [Post ''/co.uk/records'' TXT ''www.example'' ''tok'' 30]
   \<and> snd (snd (DigitalOceanProvider_delete_record (logged (zone_with []))
         (Inr \<lparr>domain = ''co.uk'', rtype = TXT, fqdn = ''www.example.co.uk'',
               name = ''_acme-challenge'', data = ''tok'', ttl = Some 30,
               resource_id = ''7''\<rparr>) ((), [])))
       = [Delete ''/co.uk/records/7'']"
proof -
  let ?C = "zone_with []"
  let ?opts = "tok_options True\<lparr>options_fqdn := ''www.example.co.uk''\<rparr>"
  let ?r = "\<lparr>domain = ''co.uk'', rtype = TXT, fqdn = ''www.example.co.uk'',
      name = ''_acme-challenge'', data = ''tok'', ttl = Some 30, resource_id = ''7''\<rparr>"
  have listing: "get_records (logged ?C) ''www.example.co.uk'' TXT ((), [])
      = (Inr [], ((), [Get ''/co.uk/records/''
           [(''name'', ''www.example.co.uk''), (''type'', ''TXT'')]]))"
    by code_simp
  have root: "get_domain (options_fqdn ?opts) = Inr ''co.uk''"
    unfolding tok_options_def by code_simp
  have made: "create_record ''www.example.co.uk'' (txt_item ''7'' ''tok'') = Inr ?r"
    by code_simp
  have nm: "record_name ''co.uk'' ''www.example.co.uk'' = ''www.example''"
    by code_simp
  from get_domain_last_two_labels [where s = "''co''" and a = "''example''" and b = "''com''"
      and q = "''www''" and C = ?C and fq = "''www.example.co.uk''" and t = TXT and c = "()"
      and reqs = "[]" and existing = "[]"
      and st = "((), [Get ''/co.uk/records/''
           [(''name'', ''www.example.co.uk''), (''type'', ''TXT'')]])"
      and opts = ?opts and root = "''co.uk''" and ty = TXT and fq' = "''www.example.co.uk''"
      and it = "txt_item ''7'' ''tok''" and r = ?r]
    listing root made nm
  show ?thesis by (simp add: tok_options_def)
qed

section \<open>Properties of a run\<close>

subsection \<open>What a recorded run logs\<close>

lemma recording_sel:
  "provider_create_record (recording E) options (s, evs) =
     (case provider_create_record E options s of
        (Inl e, s1) \<Rightarrow> (Inl e, (s1, evs))
      | (Inr record, s1) \<Rightarrow> (Inr record, (s1, evs @ [Created record])))"
  "provider_delete_record (recording E) record (s, evs) =
     (case provider_delete_record E record s of
        (res, s1) \<Rightarrow> (res, (s1, evs @ [DeleteAttempted record res])))"
  "resolver_resolve (recording E) fq t (s, evs) =
     (case resolver_resolve E fq t s of (res, s1) \<Rightarrow> (res, (s1, evs)))"
  "clock (recording E) (s, evs) = (case clock E s of (now, s1) \<Rightarrow> (now, (s1, evs)))"
  "time_sleep (recording E) d (s, evs) = (time_sleep E d s, evs)"
  "acme_new_order (recording E) c (s, evs) =
     (case acme_new_order E c s of (ores, s1) \<Rightarrow> (ores, (s1, evs)))"
  "acme_answer_challenge (recording E) ch r (s, evs) =
     (case acme_answer_challenge E ch r s of (ares, s1) \<Rightarrow> (ares, (s1, evs)))"
  "acme_poll_and_finalize (recording E) order deadline (s, evs) =
     (case acme_poll_and_finalize E order deadline s of (fres, s1) \<Rightarrow> (fres, (s1, evs)))"
  by (simp_all add: recording_def)

lemma created_append: "created (xs @ ys) = created xs @ created ys"
  by (induction xs rule: created.induct) auto
lemma deletions_append: "deletions (xs @ ys) = deletions xs @ deletions ys"
  by (induction xs rule: deletions.induct) auto
lemma deletion_errors_append: "deletion_errors (xs @ ys) = deletion_errors xs @ deletion_errors ys"
  by (induction xs rule: deletion_errors.induct) auto

lemma created_map: "created (map Created cs) = cs" "deletions (map Created cs) = []"
   "deletion_errors (map Created cs) = []"
  by (induction cs) auto

text \<open>The creation loop logs the records it pushes on the stack; the wait and the body of
  the \<open>with\<close> statement log nothing; the exit logs one attempt for each record of the
  stack.\<close>

lemma create_loop_recording:
  "create_loop (recording E) records stack recs (s, evs) = ((err, stack', recs'), (s', evs'))
   \<Longrightarrow> \<exists>new. stack' = rev new @ stack \<and> evs' = evs @ map Created new"
proof (induction records arbitrary: stack recs s evs)
  case Nil
  then show ?case by simp
next
  case (Cons p records)
  obtain fq v where p: "p = (fq, v)" by (cases p)
  show ?case
  proof (cases "provider_create_record E (txt_options fq v) s")
    case (Pair res s1)
    show ?thesis
    proof (cases res)
      case (Inl e)
      with Cons.prems p Pair show ?thesis by (simp add: recording_sel)
    next
      case (Inr r)
      with Cons.prems p Pair have
        "create_loop (recording E) records (r # stack) (recs @ [r]) (s1, evs @ [Created r])
          = ((err, stack', recs'), (s', evs'))"
        by (simp add: recording_sel)
      from Cons.IH [OF this] obtain new where
        "stack' = rev new @ r # stack" "evs' = (evs @ [Created r]) @ map Created new" by blast
      then have "stack' = rev (r # new) @ stack \<and> evs' = evs @ map Created (r # new)" by simp
      then show ?thesis by blast
    qed
  qed
qed

text \<open>A property of the state that the clock, the resolver and the sleep preserve holds
  after the wait loop.\<close>

lemma wait_loop_invariant:
  assumes run: "wait_loop E deadline r s = Some (res, s')"
    and c: "\<And>st. P st \<Longrightarrow> P (snd (clock E st))"
    and q: "\<And>fq t st. P st \<Longrightarrow> P (snd (resolver_resolve E fq t st))"
    and sl: "\<And>d st. P st \<Longrightarrow> P (time_sleep E d st)"
    and s: "P s"
  shows "P s'"
proof -
  have "E = E \<longrightarrow> P s \<longrightarrow> P (snd (res, s'))"
  proof (rule wait_loop.raw_induct
      [where P = "\<lambda>E' d r s y. E' = E \<longrightarrow> P s \<longrightarrow> P (snd y)", OF _ run], goal_cases)
    case (1 wl E' deadline r s y)
    show ?case
    proof (intro impI)
      assume E': "E' = E" and s: "P s"
      obtain now s1 where clk: "clock E s = (now, s1)" by (cases "clock E s")
      with c [OF s] have s1: "P s1" by simp
      obtain ans s2 where rs: "resolver_resolve E (fqdn r) (rtype r) s1 = (ans, s2)"
        by (cases "resolver_resolve E (fqdn r) (rtype r) s1")
      with q [OF s1, of "fqdn r" "rtype r"] have s2: "P s2" by simp
      from sl [OF s2] have s3: "P (time_sleep E 2 s2)" .
      note IH = "1"(1) [of E deadline r "time_sleep E 2 s2" y]
      from "1"(2) E' clk rs s1 s2 s3 IH show "P (snd y)"
        by (auto split: if_splits sum.splits)
    qed
  qed
  with s show ?thesis by simp
qed

lemma wait_loop_recording:
  assumes "wait_loop (recording E) deadline r (s, evs) = Some (res, (s', evs'))"
  shows "evs' = evs"
  using wait_loop_invariant [OF assms, of "\<lambda>st. snd st = evs"]
  by (auto simp: recording_sel split: prod.splits)

lemma wait_all_recording:
  "wait_all (recording E) deadline recs (s, evs) = Some (res, (s', evs')) \<Longrightarrow> evs' = evs"
proof (induction recs arbitrary: s)
  case Nil
  then show ?case by simp
next
  case (Cons r recs)
  then show ?case
    by (auto split: option.splits sum.splits if_splits dest: wait_loop_recording)
qed

lemma answer_loop_recording:
  "answer_loop (recording E) cs (s, evs) = (res, (s', evs')) \<Longrightarrow> evs' = evs"
proof (induction cs arbitrary: s)
  case Nil
  then show ?case by simp
next
  case (Cons c cs)
  obtain ch resp where c: "c = (ch, resp)" by (cases c)
  from Cons c show ?case
    by (auto simp: recording_sel split: prod.splits sum.splits)
qed

lemma with_body_recording:
  assumes "with_body (recording E) challs resps order deadline (s, evs) = (res, (s', evs'))"
  shows "evs' = evs"
proof -
  obtain ares s1 evs1 where
    al: "answer_loop (recording E) (zip challs resps) (s, evs) = (ares, (s1, evs1))"
    by (metis prod.exhaust)
  from answer_loop_recording [OF al] have "evs1 = evs" .
  with assms al show ?thesis
    by (auto simp: with_body_def recording_sel split: sum.splits prod.splits)
qed

lemma attempts_simps:
  "attempts [] results = []"
  "attempts (r # stack) (res # results) = DeleteAttempted r res # attempts stack results"
  by (simp_all add: attempts_def)

lemma ExitStack_exit_recording:
  "ExitStack_exit (recording E) stack pending (s, evs) = (p, (s', evs'))
   \<Longrightarrow> \<exists>results. length results = length stack
         \<and> evs' = evs @ attempts stack results
         \<and> p = (if deletion_errors (attempts stack results) = [] then pending
                else Some (last (deletion_errors (attempts stack results))))"
proof (induction stack arbitrary: pending s evs)
  case Nil
  then show ?case by (simp add: attempts_def)
next
  case (Cons r stack)
  obtain res s1 where del: "provider_delete_record E r s = (res, s1)"
    by (cases "provider_delete_record E r s")
  let ?pending = "case res of Inl e \<Rightarrow> Some e | Inr u \<Rightarrow> pending"
  from Cons.prems del have
    "ExitStack_exit (recording E) stack ?pending (s1, evs @ [DeleteAttempted r res])
       = (p, (s', evs'))"
    by (auto simp: recording_sel split: sum.splits)
  from Cons.IH [OF this] obtain results where
    len: "length results = length stack" and
    evs': "evs' = (evs @ [DeleteAttempted r res]) @ attempts stack results" and
    p: "p = (if deletion_errors (attempts stack results) = [] then ?pending
             else Some (last (deletion_errors (attempts stack results))))"
    by blast
  have "p = (if deletion_errors (attempts (r # stack) (res # results)) = [] then pending
             else Some (last (deletion_errors (attempts (r # stack) (res # results)))))"
    using p by (cases res) (auto simp: attempts_simps)
  with len evs' show ?case
    by (intro exI [of _ "res # results"]) (simp add: attempts_simps)
qed

lemma deletions_attempts:
  "length results = length stack \<Longrightarrow> deletions (attempts stack results) = stack"
  "created (attempts stack results) = []"
proof -
  show "length results = length stack \<Longrightarrow> deletions (attempts stack results) = stack"
    by (induction stack results rule: list_induct2') (auto simp: attempts_def)
  show "created (attempts stack results) = []"
    by (induction stack results rule: list_induct2') (auto simp: attempts_def)
qed

lemma temporary_txt_records_exit_recording:
  assumes "temporary_txt_records_exit (recording E) stack outcome (s, evs) = (res, (s', evs'))"
  shows "\<exists>results. length results = length stack
         \<and> evs' = evs @ attempts stack results
         \<and> res = (if deletion_errors (attempts stack results) = [] then outcome
                else Inl (last (deletion_errors (attempts stack results))))"
proof -
  obtain p st where ex: "ExitStack_exit (recording E) stack None (s, evs) = (p, st)"
    by (cases "ExitStack_exit (recording E) stack None (s, evs)")
  with assms have st: "st = (s', evs')"
    by (auto simp: temporary_txt_records_exit_def split: option.splits)
  from ExitStack_exit_recording [OF ex [unfolded st]] obtain results where
    r: "length results = length stack" "evs' = evs @ attempts stack results"
      "p = (if deletion_errors (attempts stack results) = [] then None
            else Some (last (deletion_errors (attempts stack results))))"
    by blast
  from assms ex st r(3) have
    "res = (if deletion_errors (attempts stack results) = [] then outcome
            else Inl (last (deletion_errors (attempts stack results))))"
    by (auto simp: temporary_txt_records_exit_def split: option.splits if_splits)
  with r show ?thesis by blast
qed

lemma temporary_txt_records_enter_recording:
  assumes "temporary_txt_records_enter (recording E) records (s, evs)
             = Some ((stack, out), (s', evs'))"
  shows "evs' = evs @ map Created (rev stack)"
proof -
  obtain err stack1 recs st1 where
    cl: "create_loop (recording E) records [] [] (s, evs) = ((err, stack1, recs), st1)"
    by (metis prod.exhaust)
  obtain s1 evs1 where st1: "st1 = (s1, evs1)" by (cases st1)
  from create_loop_recording [OF cl [unfolded st1]] have
    evs1: "evs1 = evs @ map Created (rev stack1)"
    by auto
  show ?thesis
  proof (cases err)
    case (Some e)
    with assms cl st1 evs1 show ?thesis
      by (auto simp: temporary_txt_records_enter_def)
  next
    case None
    obtain now s2 where clk: "clock E s1 = (now, s2)" by (cases "clock E s1")
    from assms cl st1 None clk have
      "\<exists>res. wait_all (recording E) (now + 120) recs (s2, evs1) = Some (res, (s', evs'))
         \<and> stack = stack1"
      by (auto simp: temporary_txt_records_enter_def recording_sel
          split: option.splits sum.splits prod.splits)
    with evs1 show ?thesis by (auto dest: wait_all_recording)
  qed
qed

lemma call_recording:
  assumes "DNS01Challenge_call (recording E) self deadline (s, []) = Some (res, (s', evs))"
  shows "\<exists>cs results. length results = length cs
      \<and> evs = map Created cs @ attempts (rev cs) results
      \<and> (deletion_errors evs \<noteq> [] \<longrightarrow> res = Inl (last (deletion_errors evs)))"
proof -
  obtain ord_res s1 where no: "acme_new_order E (csr self) s = (ord_res, s1)"
    by (cases "acme_new_order E (csr self) s")
  have early: ?thesis if "evs = []"
    using that by (intro exI [of _ "[]"]) (simp add: attempts_def)
  show ?thesis
  proof (cases ord_res)
    case (Inl e)
    with assms no have "evs = []"
      by (auto simp: DNS01Challenge_call_def recording_sel)
    then show ?thesis by (rule early)
  next
    case (Inr order)
    define challs where "challs = filter (\<lambda>item. chall item = DNS01) (concat (authorizations order))"
    show ?thesis
    proof (cases "challs = []")
      case True
      with assms no Inr have "evs = []"
        by (auto simp: DNS01Challenge_call_def recording_sel challs_def)
      then show ?thesis by (rule early)
    next
      case False
      show ?thesis
      proof (cases "group_tokens 0 (domains self) (map validation challs) []")
        case (Inl e)
        with assms no Inr False have "evs = []"
          by (auto simp: DNS01Challenge_call_def recording_sel challs_def)
        then show ?thesis by (rule early)
      next
        case tok: (Inr toks)
        from assms no Inr False tok obtain stack out s2 evs2 where
          enter: "temporary_txt_records_enter (recording E) toks (s1, [])
                    = Some ((stack, out), (s2, evs2))"
          by (auto simp: DNS01Challenge_call_def recording_sel challs_def Let_def
              split: option.splits)
        from temporary_txt_records_enter_recording [OF enter] have
          evs2: "evs2 = map Created (rev stack)" by simp
        from assms no Inr False tok enter have
          "\<exists>outcome s3. temporary_txt_records_exit (recording E) stack outcome (s3, evs2)
                = (res, (s', evs))"
          by (auto simp: DNS01Challenge_call_def recording_sel challs_def Let_def
              split: option.splits sum.splits prod.splits dest: with_body_recording)
        then obtain outcome s3 where
          "temporary_txt_records_exit (recording E) stack outcome (s3, evs2) = (res, (s', evs))"
          by blast
        from temporary_txt_records_exit_recording [OF this] obtain results where
          r: "length results = length stack" "evs = evs2 @ attempts stack results"
            "res = (if deletion_errors (attempts stack results) = [] then outcome
                else Inl (last (deletion_errors (attempts stack results))))"
          by blast
        have "deletion_errors evs = deletion_errors (attempts stack results)"
          by (simp add: r(2) evs2 deletion_errors_append created_map)
        with r evs2 show ?thesis
          by (intro exI [of _ "rev stack"] exI [of _ results]) simp
      qed
    qed
  qed
qed


subsection \<open>Recording does not change a run\<close>

lemma wait_loop_recording_Some:
  assumes run: "wait_loop E deadline r s = Some y"
  shows "wait_loop (recording E) deadline r (s, evs) = Some (fst y, (snd y, evs))"
proof -
  have "E = E \<longrightarrow> wait_loop (recording E) deadline r (s, evs) = Some (fst y, (snd y, evs))"
  proof (rule wait_loop.raw_induct
      [where P = "\<lambda>E' d r s y. E' = E \<longrightarrow>
         wait_loop (recording E) d r (s, evs) = Some (fst y, (snd y, evs))",
       OF _ run], goal_cases)
    case (1 wl E' deadline r s y)
    show ?case
    proof
      assume E': "E' = E"
      obtain now s1 where clk: "clock E s = (now, s1)" by (cases "clock E s")
      obtain ans s2 where rs: "resolver_resolve E (fqdn r) (rtype r) s1 = (ans, s2)"
        by (cases "resolver_resolve E (fqdn r) (rtype r) s1")
      note IH = "1"(1) [of E deadline r "time_sleep E 2 s2" y]
      from "1"(2) E' clk rs IH
      show "wait_loop (recording E) deadline r (s, evs) = Some (fst y, (snd y, evs))"
        by (subst wait_loop.simps) (auto simp: recording_sel split: if_splits sum.splits)
    qed
  qed
  then show ?thesis by simp
qed

lemma wait_loop_recording_Some':
  assumes run: "wait_loop (recording E) deadline r (s, evs) = Some y"
  shows "wait_loop E deadline r s = Some (fst y, fst (snd y))"
proof -
  have "recording E = recording E \<longrightarrow> wait_loop E deadline r (fst (s, evs)) = Some (fst y, fst (snd y))"
  proof (rule wait_loop.raw_induct
      [where P = "\<lambda>E' d r st y. E' = recording E \<longrightarrow>
         wait_loop E d r (fst st) = Some (fst y, fst (snd y))",
       OF _ run], goal_cases)
    case (1 wl E' deadline r st y)
    show ?case
    proof
      assume E': "E' = recording E"
      obtain s evs where st: "st = (s, evs)" by (cases st)
      obtain now s1 where clk: "clock E s = (now, s1)" by (cases "clock E s")
      obtain ans s2 where rs: "resolver_resolve E (fqdn r) (rtype r) s1 = (ans, s2)"
        by (cases "resolver_resolve E (fqdn r) (rtype r) s1")
      note IH = "1"(1) [of "recording E" deadline r "(time_sleep E 2 s2, evs)" y]
      from "1"(2) E' st clk rs IH
      show "wait_loop E deadline r (fst st) = Some (fst y, fst (snd y))"
        by (subst wait_loop.simps) (auto simp: recording_sel split: if_splits sum.splits)
    qed
  qed
  then show ?thesis by simp
qed

lemma wait_loop_recording_eq:
  "wait_loop (recording E) deadline r (s, evs)
     = map_option (\<lambda>(res, s'). (res, (s', evs))) (wait_loop E deadline r s)"
proof (cases "wait_loop E deadline r s")
  case None
  show ?thesis
  proof (cases "wait_loop (recording E) deadline r (s, evs)")
    case (Some y)
    from wait_loop_recording_Some' [OF Some] None show ?thesis by simp
  qed (simp add: None)
next
  case (Some y)
  from wait_loop_recording_Some [OF Some, of evs] Some show ?thesis
    by (simp add: case_prod_beta)
qed

lemma wait_all_recording_eq:
  "wait_all (recording E) deadline recs (s, evs)
     = map_option (\<lambda>(res, s'). (res, (s', evs))) (wait_all E deadline recs s)"
proof (induction recs arbitrary: s)
  case Nil
  show ?case by simp
next
  case (Cons r recs)
  show ?case
    by (cases "wait_loop E deadline r s")
      (auto simp: wait_loop_recording_eq Cons split: sum.splits)
qed

lemma create_loop_recording_eq:
  "\<exists>evs'. create_loop (recording E) records stack recs (s, evs)
     = (fst (create_loop E records stack recs s), (snd (create_loop E records stack recs s), evs'))"
proof (induction records arbitrary: stack recs s evs)
  case Nil
  show ?case by simp
next
  case (Cons p records)
  obtain fq v where p: "p = (fq, v)" by (cases p)
  show ?case
  proof (cases "provider_create_record E (txt_options fq v) s")
    case (Pair res s1)
    show ?thesis
    proof (cases res)
      case (Inl e)
      with p Pair show ?thesis by (simp add: recording_sel)
    next
      case (Inr r)
      with p Pair Cons [of "r # stack" "recs @ [r]" s1 "evs @ [Created r]"] show ?thesis
        by (simp add: recording_sel)
    qed
  qed
qed

lemma answer_loop_recording_eq:
  "answer_loop (recording E) cs (s, evs)
     = (fst (answer_loop E cs s), (snd (answer_loop E cs s), evs))"
proof (induction cs arbitrary: s)
  case Nil
  show ?case by simp
next
  case (Cons c cs)
  obtain ch resp where c: "c = (ch, resp)" by (cases c)
  show ?case
    by (cases "acme_answer_challenge E ch resp s")
      (auto simp: c recording_sel Cons split: sum.splits)
qed

lemma with_body_recording_eq:
  "with_body (recording E) challs resps order deadline (s, evs)
     = (fst (with_body E challs resps order deadline s),
        (snd (with_body E challs resps order deadline s), evs))"
  by (cases "answer_loop E (zip challs resps) s")
    (auto simp: with_body_def answer_loop_recording_eq recording_sel
      split: sum.splits prod.splits)

lemma ExitStack_exit_recording_eq:
  "\<exists>evs'. ExitStack_exit (recording E) stack pending (s, evs)
     = (fst (ExitStack_exit E stack pending s), (snd (ExitStack_exit E stack pending s), evs'))"
proof (induction stack arbitrary: pending s evs)
  case Nil
  show ?case by simp
next
  case (Cons r stack)
  obtain res s1 where del: "provider_delete_record E r s = (res, s1)"
    by (cases "provider_delete_record E r s")
  show ?case
  proof (cases res)
    case (Inl e)
    with del Cons [of "Some e" s1 "evs @ [DeleteAttempted r res]"] show ?thesis
      by (simp add: recording_sel)
  next
    case (Inr u)
    with del Cons [of pending s1 "evs @ [DeleteAttempted r res]"] show ?thesis
      by (simp add: recording_sel)
  qed
qed

lemma temporary_txt_records_exit_recording_eq:
  "\<exists>evs'. temporary_txt_records_exit (recording E) stack outcome (s, evs)
     = (fst (temporary_txt_records_exit E stack outcome s),
        (snd (temporary_txt_records_exit E stack outcome s), evs'))"
proof -
  from ExitStack_exit_recording_eq [of E stack None s evs] obtain evs' where
    "ExitStack_exit (recording E) stack None (s, evs)
       = (fst (ExitStack_exit E stack None s), (snd (ExitStack_exit E stack None s), evs'))"
    by blast
  then show ?thesis
    by (cases "ExitStack_exit E stack None s")
      (auto simp: temporary_txt_records_exit_def split: option.splits)
qed

lemma temporary_txt_records_enter_recording_eq:
  "\<exists>evs'. temporary_txt_records_enter (recording E) records (s, evs)
     = map_option (\<lambda>(res, s'). (res, (s', evs'))) (temporary_txt_records_enter E records s)"
proof -
  obtain err stack recs s1 where cl: "create_loop E records [] [] s = ((err, stack, recs), s1)"
    by (metis prod.exhaust)
  with create_loop_recording_eq [of E records "[]" "[]" s evs] obtain evs1 where
    cl': "create_loop (recording E) records [] [] (s, evs) = ((err, stack, recs), (s1, evs1))"
    by auto
  obtain now s2 where clk: "clock E s1 = (now, s2)" by (cases "clock E s1")
  show ?thesis
  proof (cases err)
    case (Some e)
    with cl cl' show ?thesis by (auto simp: temporary_txt_records_enter_def)
  next
    case None
    with cl cl' clk show ?thesis
      by (cases "wait_all E (now + 120) recs s2")
        (auto simp: temporary_txt_records_enter_def recording_sel wait_all_recording_eq
          split: sum.splits intro!: exI [of _ evs1])
  qed
qed

text \<open>The results and the states of the run under \<open>recording E\<close> are those of the run
  under \<open>E\<close>.\<close>

lemma recording_transparent:
  "map_option (\<lambda>(res, (s', evs')). (res, s'))
     (DNS01Challenge_call (recording E) self deadline (s, evs))
   = DNS01Challenge_call E self deadline s"
proof (cases "acme_new_order E (csr self) s")
  case (Pair ord_res s1)
  show ?thesis
  proof (cases ord_res)
    case (Inl e)
    with Pair show ?thesis by (simp add: DNS01Challenge_call_def recording_sel)
  next
    case (Inr order)
    define challs where
      "challs = filter (\<lambda>item. chall item = DNS01) (concat (authorizations order))"
    show ?thesis
    proof (cases "challs = []")
      case True
      with Pair Inr show ?thesis
        by (simp add: DNS01Challenge_call_def recording_sel challs_def)
    next
      case False
      show ?thesis
      proof (cases "group_tokens 0 (domains self) (map validation challs) []")
        case (Inl e)
        with Pair Inr False show ?thesis
          by (simp add: DNS01Challenge_call_def recording_sel challs_def)
      next
        case tok: (Inr toks)
        from temporary_txt_records_enter_recording_eq [of E toks s1 evs] obtain evs1 where
          enter: "temporary_txt_records_enter (recording E) toks (s1, evs)
            = map_option (\<lambda>(r, s'). (r, (s', evs1))) (temporary_txt_records_enter E toks s1)"
          by blast
        show ?thesis
        proof (cases "temporary_txt_records_enter E toks s1")
          case None
          with Pair Inr False tok enter show ?thesis
            by (simp add: DNS01Challenge_call_def recording_sel challs_def)
        next
          case (Some y)
          obtain stack out s2 where y: "y = ((stack, out), s2)" by (metis prod.exhaust)
          show ?thesis
          proof (cases out)
            case (Inl e)
            let ?out = "Inl e :: error + OrderResource"
            from temporary_txt_records_exit_recording_eq [of E stack ?out s2 evs1]
            obtain evs2 where
              "temporary_txt_records_exit (recording E) stack ?out (s2, evs1)
               = (fst (temporary_txt_records_exit E stack ?out s2),
                  (snd (temporary_txt_records_exit E stack ?out s2), evs2))"
              by blast
            with Pair Inr False tok enter Some y Inl show ?thesis
              by (simp add: DNS01Challenge_call_def recording_sel challs_def)
          next
            case dns: (Inr dns_records)
            obtain outcome s3 where
              wb: "with_body E challs (map response challs) order deadline s2 = (outcome, s3)"
              by (metis prod.exhaust)
            from temporary_txt_records_exit_recording_eq [of E stack outcome s3 evs1]
            obtain evs2 where
              "temporary_txt_records_exit (recording E) stack outcome (s3, evs1)
               = (fst (temporary_txt_records_exit E stack outcome s3),
                  (snd (temporary_txt_records_exit E stack outcome s3), evs2))"
              by blast
            with Pair Inr False tok enter Some y dns wb show ?thesis
              by (simp add: DNS01Challenge_call_def recording_sel challs_def
                  with_body_recording_eq)
          qed
        qed
      qed
    qed
  qed
qed

subsection \<open>The propagation wait\<close>

lemma wait_loop_past_deadline:
  assumes "clock E s = (now, s1)" and "deadline \<le> now"
  shows "wait_loop E deadline r s = Some (Inr False, s1)"
  using assms by (subst wait_loop.simps) simp

lemma wait_loop_poll:
  assumes "clock E s = (now, s1)" and "now < deadline"
    and "resolver_resolve E (fqdn r) (rtype r) s1 = (Inr vs, s2)"
  shows "wait_loop E deadline r s =
     (if data r \<in> set vs then Some (Inr True, s2)
      else wait_loop E deadline r (time_sleep E 2 s2))"
  using assms by (subst wait_loop.simps) simp

text \<open>A wait that succeeds ends in the state left by a query that returned the value.\<close>

lemma wait_loop_True:
  assumes run: "wait_loop E deadline r s = Some (Inr True, s')"
  shows "\<exists>s1 vs. resolver_resolve E (fqdn r) (rtype r) s1 = (Inr vs, s') \<and> data r \<in> set vs"
proof -
  have "fst (Inr True :: error + bool, s') = Inr True \<longrightarrow>
      (\<exists>s1 vs. resolver_resolve E (fqdn r) (rtype r) s1 = (Inr vs, snd (Inr True :: error + bool, s'))
         \<and> data r \<in> set vs)"
  proof (rule wait_loop.raw_induct
      [where P = "\<lambda>E d r s y. fst y = Inr True \<longrightarrow>
         (\<exists>s1 vs. resolver_resolve E (fqdn r) (rtype r) s1 = (Inr vs, snd y) \<and> data r \<in> set vs)",
       OF _ run], goal_cases)
    case (1 wl E deadline r s y)
    obtain now s1 where clk: "clock E s = (now, s1)" by (cases "clock E s")
    obtain ans s2 where rs: "resolver_resolve E (fqdn r) (rtype r) s1 = (ans, s2)"
      by (cases "resolver_resolve E (fqdn r) (rtype r) s1")
    note IH = "1"(1) [of E deadline r "time_sleep E 2 s2" y]
    show ?case
    proof (cases "now < deadline")
      case False
      with "1"(2) clk show ?thesis by auto
    next
      case True
      show ?thesis
      proof (cases ans)
        case (Inl e)
        with "1"(2) clk rs True show ?thesis by auto
      next
        case (Inr vs)
        show ?thesis
        proof (cases "data r \<in> set vs")
          case True
          with "1"(2) clk rs Inr \<open>now < deadline\<close> have "y = (Inr True, s2)" by auto
          with rs Inr True show ?thesis by auto
        next
          case False
          with "1"(2) clk rs Inr \<open>now < deadline\<close> have
            "wl E deadline r (time_sleep E 2 s2) = Some y" by auto
          with IH show ?thesis by blast
        qed
      qed
    qed
  qed
  then show ?thesis by simp
qed

text \<open>With a clock that follows the sleeps, the loop ends; the bounds are those of the
  last reading of the clock.\<close>

lemma wait_loop_times_out:
  fixes t_of :: "'s \<Rightarrow> int"
  assumes clk: "\<And>st. clock E st = (t_of st, st)"
    and slp: "\<And>d st. t_of (time_sleep E d st) = t_of st + d"
    and res: "\<And>fq t st. fst (resolver_resolve E fq t st) = Inr []
          \<and> t_of st \<le> t_of (snd (resolver_resolve E fq t st))
          \<and> t_of (snd (resolver_resolve E fq t st)) \<le> t_of st + latency"
  shows "\<exists>s'. wait_loop E deadline r s = Some (Inr False, s') \<and> deadline \<le> t_of s'
     \<and> (deadline \<le> t_of s \<longrightarrow> s' = s)
     \<and> (t_of s < deadline \<longrightarrow> t_of s' < deadline + 2 + latency)"
proof (induction "nat (deadline - t_of s)" arbitrary: s rule: less_induct)
  case less
  show ?case
  proof (cases "deadline \<le> t_of s")
    case True
    with wait_loop_past_deadline [OF clk [of s], of deadline r] show ?thesis by simp
  next
    case False
    obtain ans s2 where rs: "resolver_resolve E (fqdn r) (rtype r) s = (ans, s2)"
      by (cases "resolver_resolve E (fqdn r) (rtype r) s")
    with res [of "fqdn r" "rtype r" s] have
      ans: "ans = Inr []" and lo: "t_of s \<le> t_of s2" and hi: "t_of s2 \<le> t_of s + latency"
      by simp_all
    let ?s3 = "time_sleep E 2 s2"
    have t3: "t_of ?s3 = t_of s2 + 2" by (rule slp)
    from False lo t3 have "nat (deadline - t_of ?s3) < nat (deadline - t_of s)" by simp
    from less [OF this] obtain s' where
      s': "wait_loop E deadline r ?s3 = Some (Inr False, s')" "deadline \<le> t_of s'"
        "deadline \<le> t_of ?s3 \<longrightarrow> s' = ?s3"
        "t_of ?s3 < deadline \<longrightarrow> t_of s' < deadline + 2 + latency"
      by blast
    from False have "wait_loop E deadline r s = wait_loop E deadline r ?s3"
      using wait_loop_poll [OF clk [of s] _ rs [unfolded ans], of deadline] by simp
    moreover have "t_of s' < deadline + 2 + latency"
      using s'(3,4) t3 hi False by (cases "deadline \<le> t_of ?s3") auto
    ultimately show ?thesis using s' False by auto
  qed
qed

lemma enter_times_out:
  fixes t_of :: "'s \<Rightarrow> int"
  assumes clk: "\<And>st. clock E st = (t_of st, st)"
    and slp: "\<And>d st. t_of (time_sleep E d st) = t_of st + d"
    and res: "\<And>fq t st. fst (resolver_resolve E fq t st) = Inr []
          \<and> t_of st \<le> t_of (snd (resolver_resolve E fq t st))
          \<and> t_of (snd (resolver_resolve E fq t st)) \<le> t_of st + latency"
    and created: "create_loop E records [] [] s = ((None, stack, r # rs), s1)"
  shows "\<exists>s'. temporary_txt_records_enter E records s = Some ((stack, Inl TimeoutError), s')
     \<and> t_of s1 + 120 \<le> t_of s' \<and> t_of s' < t_of s1 + 122 + latency"
proof -
  from wait_loop_times_out [of E t_of latency "t_of s1 + 120" r s1, OF clk slp res]
  obtain s' where
    s': "wait_loop E (t_of s1 + 120) r s1 = Some (Inr False, s')" "t_of s1 + 120 \<le> t_of s'"
      "t_of s' < t_of s1 + 120 + 2 + latency"
    by auto
  then have "temporary_txt_records_enter E records s = Some ((stack, Inl TimeoutError), s')"
    by (simp add: temporary_txt_records_enter_def created clk)
  with s' show ?thesis by auto
qed

text \<open>With a clock that stands still before the deadline and a resolver that never shows
  the value, the loop does not end.\<close>

lemma wait_loop_frozen:
  assumes clk: "\<And>st. clock E st = (t0, st)" and before: "t0 < deadline"
    and res: "\<And>fq t st. fst (resolver_resolve E fq t st) = Inr []"
  shows "wait_loop E deadline r s = None"
proof (cases "wait_loop E deadline r s")
  case (Some y)
  have "E = E \<and> deadline = deadline \<longrightarrow> False"
  proof (rule wait_loop.raw_induct
      [where P = "\<lambda>E' d r s y. E' = E \<and> d = deadline \<longrightarrow> False", OF _ Some], goal_cases)
    case (1 wl E' d r s y)
    show ?case
    proof
      assume eq: "E' = E \<and> d = deadline"
      obtain ans s2 where rs: "resolver_resolve E (fqdn r) (rtype r) s = (ans, s2)"
        by (cases "resolver_resolve E (fqdn r) (rtype r) s")
      with res [of "fqdn r" "rtype r" s] have ans: "ans = Inr []" by simp
      from "1"(2) eq clk [of s] before rs ans have
        "wl E deadline r (time_sleep E 2 s2) = Some y" by simp
      with "1"(1) [of E deadline r "time_sleep E 2 s2" y] show False by simp
    qed
  qed
  then show ?thesis by simp
qed

lemma enter_frozen:
  assumes clk: "\<And>st. clock E st = (t0, st)"
    and res: "\<And>fq t st. fst (resolver_resolve E fq t st) = Inr []"
    and created: "create_loop E records [] [] s = ((None, stack, r # rs), s1)"
  shows "temporary_txt_records_enter E records s = None"
  using wait_loop_frozen [of E t0 "t0 + 120" r s1, OF clk _ res]
  by (simp add: temporary_txt_records_enter_def created clk)



subsection \<open>Cleanup\<close>

text \<open>
  C1. In every run that ends, whatever its outcome, the events are the creations
  followed by one deletion attempt for each created record, the last created first;
  so the records whose deletion was attempted are the created records in reverse
  order, and each record has as many deletion attempts as creations.
\<close>

theorem created_records_deleted_once:
  assumes "DNS01Challenge_call (recording E) self deadline (s, []) = Some (res, (s', evs))"
  shows "deletions evs = rev (created evs)
       \<and> (\<forall>r. count_list (deletions evs) r = count_list (created evs) r)
       \<and> (\<exists>results. length results = length (created evs)
             \<and> evs = map Created (created evs) @ attempts (rev (created evs)) results)"
proof -
  from call_recording [OF assms] obtain cs results where
    len: "length results = length cs" and evs: "evs = map Created cs @ attempts (rev cs) results"
    by blast
  have c: "created evs = cs"
    by (simp add: evs created_append created_map deletions_attempts)
  have d: "deletions evs = rev cs"
    by (simp add: evs deletions_append created_map deletions_attempts len)
  from c d have "\<forall>r. count_list (deletions evs) r = count_list (created evs) r"
    by (simp add: count_list_rev)
  with c d len evs show ?thesis by auto
qed

theorem created_records_deleted_once_witness:
  "\<exists>res s' evs.
     DNS01Challenge_call
       (recording (sim_env 0 (switch_at 0 [] [''tok1'', ''tok2''])
          (deletion_raises ''tok1'' UnauthorizedError ResourceNotFoundError) [''tok1'', ''tok2'']))
       (challenge_for [''a.example.com'', ''*.example.com'']) None (sim_start, [])
       = Some (res, (s', evs))
     \<and> created evs = [txt_record ''_acme-challenge.a.example.com'' ''tok1'',
                       txt_record ''_acme-challenge.example.com'' ''tok2'']
     \<and> deletions evs = [txt_record ''_acme-challenge.example.com'' ''tok2'',
                         txt_record ''_acme-challenge.a.example.com'' ''tok1'']"
proof -
  let ?a = "txt_record ''_acme-challenge.a.example.com'' ''tok1''"
  let ?b = "txt_record ''_acme-challenge.example.com'' ''tok2''"
  let ?evs = "[Created ?a, Created ?b, DeleteAttempted ?b (Inl ResourceNotFoundError),
      DeleteAttempted ?a (Inl UnauthorizedError)]"
  have run: "DNS01Challenge_call
       (recording (sim_env 0 (switch_at 0 [] [''tok1'', ''tok2''])
          (deletion_raises ''tok1'' UnauthorizedError ResourceNotFoundError) [''tok1'', ''tok2'']))
       (challenge_for [''a.example.com'', ''*.example.com'']) None (sim_start, [])
     = Some (Inl UnauthorizedError,
         (\<lparr>sim_now = 0, sim_queries = [0, 0], sim_deleted = [?b, ?a]\<rparr>, ?evs))"
    by code_simp
  have "created ?evs = [?a, ?b]" by simp
  with created_records_deleted_once [OF run] run show ?thesis by simp
qed

text \<open>
  C2, as the code has it. The cleanup block attempts the deletion of every record of the
  stack, and its result is the outcome it was given only when no deletion raises;
  otherwise it is the exception of the last deletion that raised. So a run in which a
  deletion raises ends with the exception of the last deletion that raised.
\<close>

theorem cleanup_error_replaces_outcome:
  "(temporary_txt_records_exit (recording E) stack outcome (s, []) = (res, (s', evs)) \<longrightarrow>
      deletions evs = stack
      \<and> res = (if deletion_errors evs = [] then outcome else Inl (last (deletion_errors evs))))
   \<and> (DNS01Challenge_call (recording E) self deadline (s0, []) = Some (res', (s'', evs'))
        \<and> deletion_errors evs' \<noteq> [] \<longrightarrow>
      res' = Inl (last (deletion_errors evs')))"
proof -
  have block: "deletions evs = stack
      \<and> res = (if deletion_errors evs = [] then outcome else Inl (last (deletion_errors evs)))"
    if "temporary_txt_records_exit (recording E) stack outcome (s, []) = (res, (s', evs))"
  proof -
    from temporary_txt_records_exit_recording [OF that] obtain results where
      "length results = length stack" "evs = attempts stack results"
      "res = (if deletion_errors (attempts stack results) = [] then outcome
              else Inl (last (deletion_errors (attempts stack results))))"
      by auto
    then show ?thesis by (simp add: deletions_attempts)
  qed
  have run: "res' = Inl (last (deletion_errors evs'))"
    if "DNS01Challenge_call (recording E) self deadline (s0, []) = Some (res', (s'', evs'))"
      and "deletion_errors evs' \<noteq> []"
    using call_recording [OF that(1)] that(2) by blast
  from block run show ?thesis by blast
qed

theorem cleanup_error_replaces_outcome_witness:
  "fst (temporary_txt_records_exit
          (recording (sim_env 0 (switch_at 0 [] [''tok1''])
             (deletion_raises ''tok1'' UnauthorizedError ResourceNotFoundError) [''tok1'']))
          [txt_record ''b'' ''t2'', txt_record ''a'' ''tok1''] (Inr (dns_order []))
          (sim_start, []))
     = Inl UnauthorizedError
   \<and> fst (the (DNS01Challenge_call
          (recording (sim_env 0 (switch_at 0 [] [''tok1''])
             (deletion_raises ''tok1'' UnauthorizedError ResourceNotFoundError) [''tok1'']))
          (challenge_for [''a.example.com'']) None (sim_start, [])))
     = Inl UnauthorizedError"
proof -
  let ?E = "sim_env 0 (switch_at 0 [] [''tok1''])
      (deletion_raises ''tok1'' UnauthorizedError ResourceNotFoundError) [''tok1'']"
  let ?a = "txt_record ''a'' ''tok1''"
  let ?b = "txt_record ''b'' ''t2''"
  let ?r = "txt_record ''_acme-challenge.a.example.com'' ''tok1''"
  let ?evs = "[DeleteAttempted ?b (Inl ResourceNotFoundError),
      DeleteAttempted ?a (Inl UnauthorizedError)]"
  let ?evs' = "[Created ?r, DeleteAttempted ?r (Inl UnauthorizedError)]"
  have block: "temporary_txt_records_exit (recording ?E) [?b, ?a] (Inr (dns_order []))
        (sim_start, [])
      = (Inl UnauthorizedError,
         (\<lparr>sim_now = 0, sim_queries = [], sim_deleted = [?b, ?a]\<rparr>, ?evs))"
    by code_simp
  have run: "DNS01Challenge_call (recording ?E) (challenge_for [''a.example.com'']) None
        (sim_start, [])
      = Some (Inl UnauthorizedError,
          (\<lparr>sim_now = 0, sim_queries = [0], sim_deleted = [?r]\<rparr>, ?evs'))"
    by code_simp
  have errs: "deletion_errors ?evs' \<noteq> []" by simp
  from cleanup_error_replaces_outcome [where E = ?E and stack = "[?b, ?a]"
      and outcome = "Inr (dns_order [])" and s = sim_start and res = "Inl UnauthorizedError"
      and s' = "\<lparr>sim_now = 0, sim_queries = [], sim_deleted = [?b, ?a]\<rparr>" and evs = ?evs
      and self = "challenge_for [''a.example.com'']" and deadline = None and ?s0.0 = sim_start
      and res' = "Inl UnauthorizedError"
      and s'' = "\<lparr>sim_now = 0, sim_queries = [0], sim_deleted = [?r]\<rparr>" and evs' = ?evs']
    block run errs
  show ?thesis by simp
qed

text \<open>
  C2, as the claim states it, fails: with a resolver that shows the value at once and
  an ACME server that accepts, the run returns the finalized order when the deletion
  succeeds and raises ResourceNotFoundError when the deletion raises it; and a run whose
  propagation wait times out raises the ResourceNotFoundError of the deletion instead of
  TimeoutError.
\<close>

theorem cleanup_error_counterexample:
  "DNS01Challenge_call (sim_env 0 (switch_at 0 [] [''tok1'']) deletion_succeeds [''tok1''])
       (challenge_for [''a.example.com'']) None sim_start
     = Some (Inr ((dns_order [''tok1''])\<lparr>fullchain_pem := ''cert''\<rparr>),
         \<lparr>sim_now = 0, sim_queries = [0],
          sim_deleted = [txt_record ''_acme-challenge.a.example.com'' ''tok1'']\<rparr>)
   \<and> DNS01Challenge_call
       (sim_env 0 (switch_at 0 [] [''tok1''])
          (deletion_raises ''tok1'' ResourceNotFoundError ResourceNotFoundError) [''tok1''])
       (challenge_for [''a.example.com'']) None sim_start
     = Some (Inl ResourceNotFoundError,
         \<lparr>sim_now = 0, sim_queries = [0],
          sim_deleted = [txt_record ''_acme-challenge.a.example.com'' ''tok1'']\<rparr>)
   \<and> DNS01Challenge_call
       (sim_env 0 (switch_at 0 [] [])
          (deletion_raises ''tok1'' ResourceNotFoundError ResourceNotFoundError) [''tok1''])
       (challenge_for [''a.example.com'']) None sim_start
     = Some (Inl ResourceNotFoundError,
         \<lparr>sim_now = 120, sim_queries = [0, 2, 4, 6, 8, 10, 12, 14, 16, 18, 20, 22, 24, 26, 28, 30, 32, 34, 36, 38, 40, 42, 44, 46, 48, 50, 52, 54, 56, 58, 60, 62, 64, 66, 68, 70, 72, 74, 76, 78, 80, 82, 84, 86, 88, 90, 92, 94, 96, 98, 100, 102, 104, 106, 108, 110, 112, 114, 116, 118],
          sim_deleted = [txt_record ''_acme-challenge.a.example.com'' ''tok1'']\<rparr>)"
  by code_simp

subsection \<open>Deadlines\<close>




text \<open>
  C6, as the code has it. Let the clock be a reading \<open>t_of\<close> of the state that a sleep
  advances by its length and a resolver query by at most \<open>latency\<close>, and let every query
  return the empty list. When a first record was created, the \<open>try\<close> part ends, it raises
  TimeoutError, and the clock then reads at least 120 and less than 122 plus \<open>latency\<close>
  more than when the deadline was set.
\<close>

theorem propagation_timeout_window:
  fixes t_of :: "'s \<Rightarrow> int"
  assumes "\<And>st. clock E st = (t_of st, st)"
    and "\<And>d st. t_of (time_sleep E d st) = t_of st + d"
    and "\<And>fq t st. fst (resolver_resolve E fq t st) = Inr []
          \<and> t_of st \<le> t_of (snd (resolver_resolve E fq t st))
          \<and> t_of (snd (resolver_resolve E fq t st)) \<le> t_of st + latency"
    and "create_loop E records [] [] s = ((None, stack, r # rs), s1)"
  shows "\<exists>s'. temporary_txt_records_enter E records s = Some ((stack, Inl TimeoutError), s')
     \<and> t_of s1 + 120 \<le> t_of s' \<and> t_of s' < t_of s1 + 122 + latency"
  using enter_times_out [of E t_of latency records s stack r rs s1] assms by blast

theorem propagation_timeout_window_witness:
  "\<exists>s'. temporary_txt_records_enter (sim_env 0 (switch_at 0 [] []) deletion_succeeds [''tok1''])
       [(''_acme-challenge.a.example.com'', ''tok1'')] sim_start
     = Some (([txt_record ''_acme-challenge.a.example.com'' ''tok1''], Inl TimeoutError), s')
     \<and> 120 \<le> sim_now s' \<and> sim_now s' < 122"
proof -
  let ?E = "sim_env 0 (switch_at 0 [] []) deletion_succeeds [''tok1'']"
  let ?r = "txt_record ''_acme-challenge.a.example.com'' ''tok1''"
  have clk: "\<And>st. clock ?E st = (sim_now st, st)" by (simp add: sim_env_def)
  have slp: "\<And>d st. sim_now (time_sleep ?E d st) = sim_now st + d" by (simp add: sim_env_def)
  have res: "\<And>fq t st. fst (resolver_resolve ?E fq t st) = Inr []
          \<and> sim_now st \<le> sim_now (snd (resolver_resolve ?E fq t st))
          \<and> sim_now (snd (resolver_resolve ?E fq t st)) \<le> sim_now st + 0"
    by (simp add: sim_env_def switch_at_def)
  have cr: "create_loop ?E [(''_acme-challenge.a.example.com'', ''tok1'')] [] [] sim_start
      = ((None, [?r], ?r # []), sim_start)"
    by code_simp
  from propagation_timeout_window [of ?E sim_now 0, OF clk slp res cr]
  show ?thesis by (simp add: sim_start_def)
qed

text \<open>
  C6, as the claim states it, fails. When the resolver answers every query with the
  empty list but takes 5 seconds of the clock for it, the queries are 7 seconds apart,
  the last one at 119, and the run raises TimeoutError when the clock reads 126, more
  than 122 seconds after the deadline was set at 0. And when the injected clock always
  reads 0, the run never ends.
\<close>

theorem timeout_window_counterexample:
  "DNS01Challenge_call (sim_env 5 (switch_at 0 [] []) deletion_succeeds [''tok1''])
       (challenge_for [''a.example.com'']) None sim_start
     = Some (Inl TimeoutError,
         \<lparr>sim_now = 126, sim_queries = [0, 7, 14, 21, 28, 35, 42, 49, 56, 63, 70, 77, 84, 91, 98, 105, 112, 119],
          sim_deleted = [txt_record ''_acme-challenge.a.example.com'' ''tok1'']\<rparr>)
   \<and> DNS01Challenge_call
       ((sim_env 0 (switch_at 0 [] []) deletion_succeeds [''tok1''])\<lparr>clock := frozen_clock\<rparr>)
       (challenge_for [''a.example.com'']) None sim_start
     = None"
proof -
  let ?E = "(sim_env 0 (switch_at 0 [] []) deletion_succeeds [''tok1''])\<lparr>clock := frozen_clock\<rparr>"
  let ?r = "txt_record ''_acme-challenge.a.example.com'' ''tok1''"
  have slow: "DNS01Challenge_call (sim_env 5 (switch_at 0 [] []) deletion_succeeds [''tok1''])
       (challenge_for [''a.example.com'']) None sim_start
     = Some (Inl TimeoutError,
         \<lparr>sim_now = 126, sim_queries = [0, 7, 14, 21, 28, 35, 42, 49, 56, 63, 70, 77, 84, 91, 98, 105, 112, 119],
          sim_deleted = [?r]\<rparr>)"
    by code_simp
  have clk: "\<And>st. clock ?E st = (0, st)" by (simp add: frozen_clock_def)
  have res: "\<And>fq t st. fst (resolver_resolve ?E fq t st) = Inr []"
    by (simp add: sim_env_def switch_at_def)
  have cr: "create_loop ?E [(''_acme-challenge.a.example.com'', ''tok1'')] [] [] sim_start
      = ((None, [?r], ?r # []), sim_start)"
    by code_simp
  have toks: "verification_name ''a.example.com'' = ''_acme-challenge.a.example.com''"
    by code_simp
  have ord: "acme_new_order (sim_env 0 (switch_at 0 [] []) deletion_succeeds [''tok1'']) c s
      = (Inr (dns_order [''tok1'']), s)" for c s
    by (simp add: sim_env_def)
  from enter_frozen [of ?E 0, OF clk res cr] have
    "DNS01Challenge_call ?E (challenge_for [''a.example.com'']) None sim_start = None"
    by (simp add: DNS01Challenge_call_def challenge_for_def ord dns_order_def toks Let_def)
  with slow show ?thesis by (rule conjI)
qed

subsection \<open>Propagation\<close>

text \<open>
  C9. A poll made before the deadline ends the wait for the record with success, in the
  state the query left and without a sleep, when the record's value is an element of the
  list the resolver returned for the record's name and type; when it is not an element,
  whatever else the list holds, the wait goes on after a sleep of 2 seconds. And a wait
  that ends with success ends in the state left by a query whose list has the value as
  an element.
\<close>

theorem propagated_iff_exact_member:
  "(clock E s = (now, s1) \<and> now < deadline
      \<and> resolver_resolve E (fqdn r) (rtype r) s1 = (Inr vs, s2) \<longrightarrow>
      wait_loop E deadline r s =
        (if data r \<in> set vs then Some (Inr True, s2)
         else wait_loop E deadline r (time_sleep E 2 s2)))
   \<and> (wait_loop E deadline r s = Some (Inr True, s') \<longrightarrow>
      (\<exists>s1 vs. resolver_resolve E (fqdn r) (rtype r) s1 = (Inr vs, s') \<and> data r \<in> set vs))"
  using wait_loop_poll [of E s now s1 deadline r vs s2] wait_loop_True [of E deadline r s s']
  by blast

theorem propagated_iff_exact_member_witness:
  "wait_loop (sim_env 0 (switch_at 4 [''tok1x'', ''xtok1'', ''tok''] [''other'', ''tok1''])
        deletion_succeeds [''tok1''])
      120 (txt_record ''_acme-challenge.a.example.com'' ''tok1'') sim_start
     = wait_loop (sim_env 0 (switch_at 4 [''tok1x'', ''xtok1'', ''tok''] [''other'', ''tok1''])
        deletion_succeeds [''tok1''])
      120 (txt_record ''_acme-challenge.a.example.com'' ''tok1'')
      \<lparr>sim_now = 2, sim_queries = [0], sim_deleted = []\<rparr>
   \<and> (\<exists>s1 vs. resolver_resolve
        (sim_env 0 (switch_at 4 [''tok1x'', ''xtok1'', ''tok''] [''other'', ''tok1''])
           deletion_succeeds [''tok1''])
        ''_acme-challenge.a.example.com'' TXT s1
          = (Inr vs, \<lparr>sim_now = 4, sim_queries = [0, 2, 4], sim_deleted = []\<rparr>)
        \<and> ''tok1'' \<in> set vs)"
proof -
  let ?E = "sim_env 0 (switch_at 4 [''tok1x'', ''xtok1'', ''tok''] [''other'', ''tok1''])
      deletion_succeeds [''tok1'']"
  let ?r = "txt_record ''_acme-challenge.a.example.com'' ''tok1''"
  have clk: "clock ?E sim_start = (0, sim_start)" by (simp add: sim_env_def sim_start_def)
  have q: "resolver_resolve ?E (fqdn ?r) (rtype ?r) sim_start
      = (Inr [''tok1x'', ''xtok1'', ''tok''], \<lparr>sim_now = 0, sim_queries = [0], sim_deleted = []\<rparr>)"
    by (simp add: sim_env_def sim_start_def switch_at_def)
  have run: "wait_loop ?E 120 ?r sim_start
      = Some (Inr True, \<lparr>sim_now = 4, sim_queries = [0, 2, 4], sim_deleted = []\<rparr>)"
    by code_simp
  have sl: "time_sleep ?E 2 \<lparr>sim_now = 0, sim_queries = [0], sim_deleted = []\<rparr>
      = \<lparr>sim_now = 2, sim_queries = [0], sim_deleted = []\<rparr>"
    by (simp add: sim_env_def)
  from propagated_iff_exact_member [where E = ?E and s = sim_start and now = 0
      and ?s1.0 = sim_start and deadline = 120 and r = ?r
      and vs = "[''tok1x'', ''xtok1'', ''tok'']"
      and ?s2.0 = "\<lparr>sim_now = 0, sim_queries = [0], sim_deleted = []\<rparr>"
      and s' = "\<lparr>sim_now = 4, sim_queries = [0, 2, 4], sim_deleted = []\<rparr>"]
    clk q run sl
  show ?thesis by (simp add: txt_record_def)
qed

end
